theory Spec2Isabelle
  imports Main "HOL-Library.Sublist"
begin

section \<open>The directory scanner: a shallow embedding\<close>

text \<open>
  The scanner reads a wordlist, turns every line into one or more jobs, probes each job
  over HTTP with retries, filters the responses and optionally rescans the paths found in
  a response body. Go strings are byte sequences and are modelled as \<open>string\<close>; Go's
  \<open>int\<close> and \<open>int64\<close> are modelled as \<open>int\<close>: the program only compares them, counts
  lines with them and adds one to a depth or a loop index, so no value comes near the
  64-bit bounds.
\<close>

subsection \<open>The functions of package strings that the program uses\<close>

definition HasPrefix :: "string \<Rightarrow> string \<Rightarrow> bool" where
  "HasPrefix s pre = prefix pre s"

fun Contains :: "string \<Rightarrow> string \<Rightarrow> bool" where
  "Contains [] substr = (substr = [])"
| "Contains (c # cs) substr = (HasPrefix (c # cs) substr \<or> Contains cs substr)"

definition TrimPrefix :: "string \<Rightarrow> string \<Rightarrow> string" where
  "TrimPrefix s pre = (if HasPrefix s pre then drop (length pre) s else s)"

definition TrimLeft :: "string \<Rightarrow> string \<Rightarrow> string" where
  "TrimLeft s cutset = dropWhile (\<lambda>c. c \<in> set cutset) s"

definition TrimRight :: "string \<Rightarrow> string \<Rightarrow> string" where
  "TrimRight s cutset = rev (dropWhile (\<lambda>c. c \<in> set cutset) (rev s))"

fun Join :: "string list \<Rightarrow> string \<Rightarrow> string" where
  "Join [] sep = []"
| "Join [x] sep = x"
| "Join (x # y # ys) sep = x @ sep @ Join (y # ys) sep"


subsection \<open>Configuration (package config)\<close>

record OutputConfig =
  Format :: string
  File :: string
  Verbose :: bool

record ScannerConfig =
  Methods :: "string list"
  Extensions :: "string list"

record RateLimitConfig =
  Enabled :: bool
  RequestsPerSecond :: int

record FilterConfig =
  StatusCodes :: "int list"
  ExcludeStatus :: "int list"
  MinSize :: int
  MaxSize :: int
  IncludeRegex :: string
  ExcludeRegex :: string
  IncludeWords :: "string list"
  ExcludeWords :: "string list"

text \<open>
  Only the fields that the modelled functions read are kept: the thread count, the
  timeout, the request headers and the user agent shape the HTTP client and the request,
  which the model takes as a parameter.
\<close>

record Config =
  Target :: string
  Output :: OutputConfig
  Scanner :: ScannerConfig
  RateLimit :: RateLimitConfig
  Filters :: FilterConfig
  Recursive :: bool
  MaxDepth :: int
  RetryCount :: int

definition DefaultConfig :: Config where
  "DefaultConfig =
     \<lparr>Target = [],
      Output = \<lparr>Format = ''console'', File = [], Verbose = False\<rparr>,
      Scanner = \<lparr>Methods = [''GET''], Extensions = [''php'', ''html'', ''js'', ''txt'']\<rparr>,
      RateLimit = \<lparr>Enabled = False, RequestsPerSecond = 10\<rparr>,
      Filters = \<lparr>StatusCodes = [], ExcludeStatus = [404, 400, 403], MinSize = 0, MaxSize = 0,
                 IncludeRegex = [], ExcludeRegex = [], IncludeWords = [], ExcludeWords = []\<rparr>,
      Recursive = False, MaxDepth = 3, RetryCount = 3\<rparr>"

subsection \<open>Results and the scanner (package scanner)\<close>

record Result =
  URL :: string
  StatusCode :: int
  Size :: int
  Headers :: "string \<rightharpoonup> string"
  Body :: string
  Error :: string
  Depth :: int
  Method :: string
  Timestamp :: nat

text \<open>
  The scanner holds its configuration, the two compiled regular expressions (a nil
  pointer is \<open>None\<close>; a compiled expression is its \<open>MatchString\<close> function) and the rate
  limiter channel (nil is \<open>None\<close>, otherwise the capacity it was made with). The channel's
  content is shared with the refill goroutine and lives in the world, not in the record.
\<close>

record Scanner =
  config :: Config
  includeRegex :: "(string \<Rightarrow> bool) option"
  excludeRegex :: "(string \<Rightarrow> bool) option"
  rateLimiter :: "nat option"

text \<open>
  What \<open>http.Client.Do\<close> hands back: a response pointer and an error, either of which may
  be nil. A response carries its status code, its header and the outcome of draining its
  body with \<open>io.ReadAll\<close> (\<open>None\<close> when reading fails).
\<close>

record Response =
  resp_StatusCode :: int
  resp_Header :: "string \<rightharpoonup> string list"
  resp_Body :: "string option"

type_synonym do_result = "Response option \<times> string option"

text \<open>
  Everything outside the repository's code is a parameter. Two library functions are
  pure: \<open>url.Parse\<close> (an error text or the parsed URL) and building a request, which
  fails or not for a method and URL. The rest is a world \<open>'w\<close> that each operation reads
  and advances: sending a request, sleeping, reading the clock, polling the context for
  cancellation, and the blocking \<open>select\<close> between the rate limiter channel and the
  context (\<open>True\<close> when a token was received, \<open>False\<close> when the context was done).
\<close>

record URL =
  Scheme :: string
  Opaque :: string
  Host :: string
  Path :: string
  RawQuery :: string
  Fragment :: string

record 'w env =
  UrlParse :: "string \<Rightarrow> string + URL"
  NewRequestErr :: "string \<Rightarrow> string \<Rightarrow> string option"
  Do :: "string \<Rightarrow> string \<Rightarrow> 'w \<Rightarrow> do_result \<times> 'w"
  Sleep :: "'w \<Rightarrow> 'w"
  Now :: "'w \<Rightarrow> nat \<times> 'w"
  CtxDone :: "'w \<Rightarrow> bool \<times> 'w"
  Acquire :: "'w \<Rightarrow> bool \<times> 'w"

text \<open>The effects of one goroutine, in the order it performs them.\<close>

datatype msg = MsgResult Result | ProgressIncrement int | ProgressMaxChange int

datatype event = HttpDo string string | Slept | Send msg

text \<open>The two error texts of \<open>makeRequest\<close>, as the UTF-8 bytes of the source.\<close>

definition err_create_request :: string where
  "err_create_request =
     [CHR 0xE5, CHR 0x88, CHR 0x9B, CHR 0xE5, CHR 0xBB, CHR 0xBA, CHR 0xE8, CHR 0xAF,
      CHR 0xB7, CHR 0xE6, CHR 0xB1, CHR 0x82, CHR 0xE5, CHR 0xA4, CHR 0xB1, CHR 0xE8,
      CHR 0xB4, CHR 0xA5, CHR 0x3A, CHR 0x20]"

definition err_empty_response :: string where
  "err_empty_response =
     [CHR 0xE5, CHR 0x93, CHR 0x8D, CHR 0xE5, CHR 0xBA, CHR 0x94, CHR 0xE4, CHR 0xB8,
      CHR 0xBA, CHR 0xE7, CHR 0xA9, CHR 0xBA]"

text \<open>
  The retry loop of \<open>makeRequest\<close>. Its state is the loop index and the two variables
  declared before the loop, \<open>err\<close> and \<open>resp\<close>. Inside the body \<open>req, err := ...\<close> declares
  a second \<open>err\<close>, local to the iteration, and \<open>resp, err = s.client.Do(req)\<close> assigns the
  outer \<open>resp\<close> and that local \<open>err\<close>: the outer \<open>err\<close> is passed through unchanged.
  The loop leaves either by the early \<open>return nil, fmt.Errorf(...)\<close> or at its end.
\<close>

datatype loop_exit = EarlyReturn string | LoopEnd "string option" "Response option"

function retry_loop ::
  "'w env \<Rightarrow> int \<Rightarrow> string \<Rightarrow> string \<Rightarrow> int \<Rightarrow> string option \<Rightarrow> Response option \<Rightarrow> 'w
     \<Rightarrow> loop_exit \<times> event list \<times> 'w" where
  "retry_loop env retryCount meth url i err resp w =
     (if i \<le> retryCount then
        (case NewRequestErr env meth url of
           Some e \<Rightarrow> (EarlyReturn (err_create_request @ e), [], w)
         | None \<Rightarrow>
            (case Do env meth url w of
               ((resp', err'), w1) \<Rightarrow>
                 if err' = None then (LoopEnd err resp', [HttpDo meth url], w1)
                 else if i < retryCount then
                   (case retry_loop env retryCount meth url (i + 1) err resp' (Sleep env w1) of
                      (ex, tr, w2) \<Rightarrow> (ex, HttpDo meth url # Slept # tr, w2))
                 else
                   (case retry_loop env retryCount meth url (i + 1) err resp' w1 of
                      (ex, tr, w2) \<Rightarrow> (ex, HttpDo meth url # tr, w2))))
      else (LoopEnd err resp, [], w))"
  by pat_completeness auto
termination
  by (relation "measure (\<lambda>(env, retryCount, meth, url, i, err, resp, w). nat (retryCount + 1 - i))")
     auto

definition makeRequest ::
  "'w env \<Rightarrow> Scanner \<Rightarrow> string \<Rightarrow> string \<Rightarrow> int \<Rightarrow> 'w \<Rightarrow> (string + Result) \<times> event list \<times> 'w" where
  "makeRequest env s meth url depth w =
     (case retry_loop env (RetryCount (config s)) meth url 0 None None w of
        (EarlyReturn e, tr, w1) \<Rightarrow> (Inl e, tr, w1)
      | (LoopEnd err resp, tr, w1) \<Rightarrow>
          (case Now env w1 of
             (t, w2) \<Rightarrow>
               (case err of
                  Some e \<Rightarrow>
                    (Inr \<lparr>URL = url, StatusCode = 0, Size = 0, Headers = Map.empty, Body = [],
                          Error = e, Depth = depth, Method = meth, Timestamp = t\<rparr>, tr, w2)
                | None \<Rightarrow>
                    (case resp of
                       None \<Rightarrow>
                         (Inr \<lparr>URL = url, StatusCode = 0, Size = 0, Headers = Map.empty,
                               Body = [], Error = err_empty_response, Depth = depth,
                               Method = meth, Timestamp = t\<rparr>, tr, w2)
                     | Some r \<Rightarrow>
                         (let body = (case resp_Body r of None \<Rightarrow> [] | Some b \<Rightarrow> b);
                              result = \<lparr>URL = url, StatusCode = resp_StatusCode r,
                                        Size = int (length body), Headers = Map.empty, Body = [],
                                        Error = [], Depth = depth, Method = meth, Timestamp = t\<rparr>
                          in (Inr (if Verbose (Output (config s))
                                   then result\<lparr>Headers := (\<lambda>k. map_option (\<lambda>vs. Join vs '', '') (resp_Header r k)),
                                                Body := body\<rparr>
                                   else result), tr, w2))))))"

declare retry_loop.simps [simp del]

text \<open>
  \<open>shouldIncludeResult\<close>: the two status loops and the two keyword loops, then the chain of
  early returns.
\<close>

primrec code_listed :: "int \<Rightarrow> int list \<Rightarrow> bool" where
  "code_listed status [] = False"
| "code_listed status (code # codes) = (if status = code then True else code_listed status codes)"

primrec word_found :: "string \<Rightarrow> string list \<Rightarrow> bool" where
  "word_found body [] = False"
| "word_found body (word # ws) = (if Contains body word then True else word_found body ws)"

definition shouldIncludeResult :: "Scanner \<Rightarrow> Result \<Rightarrow> bool" where
  "shouldIncludeResult s result =
     (let f = Filters (config s) in
      if length (StatusCodes f) > 0 \<and> \<not> code_listed (StatusCode result) (StatusCodes f) then False
      else if code_listed (StatusCode result) (ExcludeStatus f) then False
      else if MinSize f > 0 \<and> Size result < MinSize f then False
      else if MaxSize f > 0 \<and> Size result > MaxSize f then False
      else if (case includeRegex s of None \<Rightarrow> False | Some re \<Rightarrow> \<not> re (Body result)) then False
      else if (case excludeRegex s of None \<Rightarrow> False | Some re \<Rightarrow> re (Body result)) then False
      else if length (IncludeWords f) > 0 \<and> \<not> word_found (Body result) (IncludeWords f) then False
      else if word_found (Body result) (ExcludeWords f) then False
      else True)"

text \<open>
  The same chain with its \<open>return false\<close> statements numbered by the rule they belong to
  (both size checks belong to rule 3), so that the order of evaluation can be stated:
  \<open>None\<close> is the final \<open>return true\<close>.
\<close>

definition excludedBy :: "Scanner \<Rightarrow> Result \<Rightarrow> nat option" where
  "excludedBy s result =
     (let f = Filters (config s) in
      if length (StatusCodes f) > 0 \<and> \<not> code_listed (StatusCode result) (StatusCodes f) then Some 1
      else if code_listed (StatusCode result) (ExcludeStatus f) then Some 2
      else if MinSize f > 0 \<and> Size result < MinSize f then Some 3
      else if MaxSize f > 0 \<and> Size result > MaxSize f then Some 3
      else if (case includeRegex s of None \<Rightarrow> False | Some re \<Rightarrow> \<not> re (Body result)) then Some 4
      else if (case excludeRegex s of None \<Rightarrow> False | Some re \<Rightarrow> re (Body result)) then Some 5
      else if length (IncludeWords f) > 0 \<and> \<not> word_found (Body result) (IncludeWords f) then Some 6
      else if word_found (Body result) (ExcludeWords f) then Some 7
      else None)"

text \<open>
  \<open>ScanURL\<close>: the rate limiter \<open>select\<close> (skipped for a nil channel), the placeholder
  check, the URL, and the loop over the configured methods. \<open>makeRequest\<close> never returns a
  nil result with a nil error, so the loop's \<open>result != nil\<close> test is always true there.
  The result is the Go pair: \<open>Inl\<close> an error, \<open>Inr None\<close> for \<open>nil, nil\<close>.
\<close>

fun try_methods ::
  "'w env \<Rightarrow> Scanner \<Rightarrow> string list \<Rightarrow> string \<Rightarrow> int \<Rightarrow> 'w \<Rightarrow> (string + Result option) \<times> event list \<times> 'w" where
  "try_methods env s [] fullURL depth w = (Inr None, [], w)"
| "try_methods env s (meth # ms) fullURL depth w =
     (case makeRequest env s meth fullURL depth w of
        (Inl err, tr, w1) \<Rightarrow>
          (case try_methods env s ms fullURL depth w1 of (res, tr', w2) \<Rightarrow> (res, tr @ tr', w2))
      | (Inr result, tr, w1) \<Rightarrow>
          if shouldIncludeResult s result then (Inr (Some result), tr, w1)
          else (case try_methods env s ms fullURL depth w1 of (res, tr', w2) \<Rightarrow> (res, tr @ tr', w2)))"

definition ctx_Canceled :: string where
  "ctx_Canceled = ''context canceled''"

definition ScanURL ::
  "'w env \<Rightarrow> Scanner \<Rightarrow> string \<Rightarrow> string \<Rightarrow> int \<Rightarrow> 'w \<Rightarrow> (string + Result option) \<times> event list \<times> 'w" where
  "ScanURL env s targetURL path depth w =
     (case (if rateLimiter s \<noteq> None then Acquire env w else (True, w)) of
        (False, w1) \<Rightarrow> (Inl ctx_Canceled, [], w1)
      | (True, w1) \<Rightarrow>
          if Contains path ''%FUZZ%'' then (Inr None, [], w1)
          else try_methods env s (Methods (Scanner (config s)))
                 (TrimRight targetURL ''/'' @ ''/'' @ TrimLeft path ''/'') depth w1)"

text \<open>
  \<open>ExtractPaths\<close>. The regular expression \<open>href=["']([^"']+)["']\<close> is matched as the
  library does: at the leftmost position where it fits, the class taking every byte up
  to the next quote (a shorter run would be followed by a byte that is not a quote);
  the search goes on behind the match. \<open>find_hrefs\<close> is the list of the first groups of
  \<open>FindAllStringSubmatch(body, -1)\<close>.
\<close>

definition is_quote :: "char \<Rightarrow> bool" where
  "is_quote c = (c = CHR 0x22 \<or> c = CHR 0x27)"

definition match_href :: "string \<Rightarrow> (string \<times> string) option" where
  "match_href s =
     (if HasPrefix s ''href='' then
        (case drop 5 s of
           [] \<Rightarrow> None
         | q # t \<Rightarrow>
             if is_quote q \<and> takeWhile (\<lambda>c. \<not> is_quote c) t \<noteq> [] \<and> dropWhile (\<lambda>c. \<not> is_quote c) t \<noteq> []
             then Some (takeWhile (\<lambda>c. \<not> is_quote c) t, tl (dropWhile (\<lambda>c. \<not> is_quote c) t))
             else None)
      else None)"

function find_hrefs :: "string \<Rightarrow> string list" where
  "find_hrefs [] = []"
| "find_hrefs (c # cs) =
     (case match_href (c # cs) of
        Some (v, rest) \<Rightarrow> v # find_hrefs rest
      | None \<Rightarrow> find_hrefs cs)"
  by pat_completeness auto
termination
proof (relation "measure length")
  show "wf (measure length)" by simp
next
  fix c :: char and cs x2 v rest
  assume "match_href (c # cs) = Some x2" and "(v, rest) = x2"
  then have m: "match_href (c # cs) = Some (v, rest)" by simp
  then obtain q t where d: "drop 5 (c # cs) = q # t"
    and r: "rest = tl (dropWhile (\<lambda>c. \<not> is_quote c) t)"
    by (auto simp: match_href_def split: if_splits list.splits)
  have "length (drop 5 (c # cs)) = Suc (length t)"
    by (simp only: d length_Cons)
  then have "length t < length (c # cs)"
    by simp
  moreover have "length (dropWhile (\<lambda>c. \<not> is_quote c) t) \<le> length t"
    by (rule length_dropWhile_le)
  then have "length rest \<le> length t"
    using r by simp
  ultimately show "(rest, c # cs) \<in> measure length" by simp
next
  fix c :: char and cs
  show "(cs, c # cs) \<in> measure length" by simp
qed

primrec collect_paths :: "(string \<Rightarrow> string + URL) \<Rightarrow> string list \<Rightarrow> string list" where
  "collect_paths parse [] = []"
| "collect_paths parse (path # ms) =
     (if \<not> HasPrefix path ''http'' \<and> \<not> HasPrefix path ''mailto:'' \<and>
         \<not> HasPrefix path ''#'' \<and> \<not> HasPrefix path ''javascript:''
      then (case parse path of
              Inl err \<Rightarrow> collect_paths parse ms
            | Inr u \<Rightarrow>
                if Path u \<noteq> [] then TrimPrefix (Path u) ''/'' # collect_paths parse ms
                else collect_paths parse ms)
      else collect_paths parse ms)"

definition ExtractPaths :: "'w env \<Rightarrow> Scanner \<Rightarrow> Result \<Rightarrow> string list" where
  "ExtractPaths env s result =
     (if Body result = [] then [] else collect_paths (UrlParse env) (find_hrefs (Body result)))"


text \<open>The number of requests sent and of sleeps taken, read off a trace.\<close>

fun is_HttpDo :: "event \<Rightarrow> bool" where
  "is_HttpDo (HttpDo m u) = True"
| "is_HttpDo e = False"

definition attempts :: "event list \<Rightarrow> nat" where
  "attempts tr = length (filter is_HttpDo tr)"

definition sleeps :: "event list \<Rightarrow> nat" where
  "sleeps tr = length (filter (\<lambda>e. e = Slept) tr)"

text \<open>
  The world in which attempt number \<open>k\<close> (counted from zero) is sent when every earlier
  attempt failed and was followed by the retry delay.
\<close>

fun world_before :: "'w env \<Rightarrow> string \<Rightarrow> string \<Rightarrow> nat \<Rightarrow> 'w \<Rightarrow> 'w" where
  "world_before env meth url 0 w = w"
| "world_before env meth url (Suc k) w =
     world_before env meth url k (Sleep env (snd (Do env meth url w)))"

subsection \<open>The rate limiter channel\<close>

text \<open>
  \<open>make(chan struct{}, n)\<close> is a buffer of \<open>n\<close> slots, empty at first; all tokens are
  alike, so the buffer is the number of tokens it holds. One tick of \<open>fillRateLimiter\<close>
  is a \<open>select\<close> with a send and a \<open>default\<close>: the send is taken when a slot is free,
  otherwise the \<open>default\<close> is, and the token is dropped. The \<open>select\<close> of \<open>ScanURL\<close> has a
  receive and the context: it takes whichever is ready, either when both are (the
  runtime picks; \<open>pick\<close> is its choice), and blocks (\<open>None\<close>) while neither is.
\<close>

record chan =
  capacity :: nat
  tokens :: nat

definition make_chan :: "nat \<Rightarrow> chan" where
  "make_chan n = \<lparr>capacity = n, tokens = 0\<rparr>"

definition fill_tick :: "chan \<Rightarrow> chan" where
  "fill_tick c = (if tokens c < capacity c then c\<lparr>tokens := tokens c + 1\<rparr> else c)"

definition acquire_select :: "chan \<Rightarrow> bool \<Rightarrow> bool \<Rightarrow> (bool \<times> chan) option" where
  "acquire_select c ctx_done pick =
     (if 0 < tokens c \<and> ctx_done
      then Some (if pick then (True, c\<lparr>tokens := tokens c - 1\<rparr>) else (False, c))
      else if 0 < tokens c then Some (True, c\<lparr>tokens := tokens c - 1\<rparr>)
      else if ctx_done then Some (False, c)
      else None)"

text \<open>
  The part of \<open>New\<close> that makes the rate limiter: a channel of capacity
  \<open>RequestsPerSecond\<close> when rate limiting is enabled, nil otherwise. \<open>make\<close> panics on
  a negative size.
\<close>

definition New_rateLimiter :: "Config \<Rightarrow> string + nat option" where
  "New_rateLimiter c =
     (if Enabled (RateLimit c) then
        (if RequestsPerSecond (RateLimit c) < 0 then Inl ''panic: makechan: size out of range''
         else Inr (Some (nat (RequestsPerSecond (RateLimit c)))))
      else Inr None)"

text \<open>The histories of a channel: ticks of the refill goroutine and receives that found a token.\<close>

datatype chan_op = Tick | Receive

fun chan_step :: "chan \<Rightarrow> chan_op \<Rightarrow> chan" where
  "chan_step c Tick = fill_tick c"
| "chan_step c Receive = (case acquire_select c False True of Some (b, c') \<Rightarrow> c' | None \<Rightarrow> c)"

subsection \<open>The application (package main)\<close>

text \<open>
  The output writers of package output that \<open>NewApp\<close> builds: the console writer, the
  two buffered file writers with their buffers, and the writer that fans out to a list.
\<close>

datatype Writer =
    ConsoleWriter bool
  | BufferedJSONWriter string "Result list"
  | BufferedCSVWriter string "Result list"
  | MultiWriter "Writer list"

record App =
  cfg :: Config
  scanner :: Scanner
  writer :: "Writer option"





text \<open>
  \<open>recursiveScan\<close> and the loop over the extracted paths. The loop polls the context,
  announces the job, scans the path at the current depth and, for a result with a status
  from 200 to 399, calls \<open>recursiveScan\<close> one level deeper before it goes on.
\<close>

function recursiveScan :: "'w env \<Rightarrow> App \<Rightarrow> Result \<Rightarrow> int \<Rightarrow> 'w \<Rightarrow> event list \<times> 'w"
  and scan_paths :: "'w env \<Rightarrow> App \<Rightarrow> string list \<Rightarrow> int \<Rightarrow> 'w \<Rightarrow> event list \<times> 'w" where
  "recursiveScan env a parentResult depth w =
     (if depth > MaxDepth (cfg a) then ([], w)
      else
        (case scan_paths env a (ExtractPaths env (scanner a) parentResult) depth w of
           (tr, w1) \<Rightarrow>
             ((if length (ExtractPaths env (scanner a) parentResult) > 0
               then [Send (ProgressMaxChange (int (length (ExtractPaths env (scanner a) parentResult))))]
               else []) @ tr, w1)))"
| "scan_paths env a [] depth w = ([], w)"
| "scan_paths env a (path # rest) depth w =
     (case CtxDone env w of
        (True, w1) \<Rightarrow> ([], w1)
      | (False, w1) \<Rightarrow>
          (case ScanURL env (scanner a) (Target (cfg a)) path depth w1 of
             (Inl err, tr, w2) \<Rightarrow>
               (case scan_paths env a rest depth w2 of
                  (tr', w3) \<Rightarrow> (Send (ProgressIncrement 1) # tr @ tr', w3))
           | (Inr None, tr, w2) \<Rightarrow>
               (case scan_paths env a rest depth w2 of
                  (tr', w3) \<Rightarrow> (Send (ProgressIncrement 1) # tr @ tr', w3))
           | (Inr (Some result), tr, w2) \<Rightarrow>
               if StatusCode result \<ge> 200 \<and> StatusCode result < 400
               then (case recursiveScan env a result (depth + 1) w2 of
                       (tr1, w3) \<Rightarrow>
                         (case scan_paths env a rest depth w3 of
                            (tr', w4) \<Rightarrow>
                              (Send (ProgressIncrement 1) # tr @ Send (MsgResult result) # tr1 @ tr', w4)))
               else (case scan_paths env a rest depth w2 of
                       (tr', w3) \<Rightarrow>
                         (Send (ProgressIncrement 1) # tr @ Send (MsgResult result) # tr', w3))))"
  by pat_completeness auto
termination
  by (relation "inv_image (less_than <*lex*> less_than)
        (\<lambda>x. case x of
           Inl (env, a, parentResult, depth, w) \<Rightarrow> (2 * nat (MaxDepth (cfg a) + 1 - depth), 0)
         | Inr (env, a, paths, depth, w) \<Rightarrow>
             (max 1 (2 * nat (MaxDepth (cfg a) + 1 - depth) - 1), length paths))")
     auto

text \<open>
  The worker, over the jobs it receives from the job channel: it polls the context
  (and returns when it is done), announces the job, scans it at depth 0, sends a result
  that passed and, when recursion is on and the status is from 200 to 399, rescans.
\<close>

fun worker :: "'w env \<Rightarrow> App \<Rightarrow> string list \<Rightarrow> 'w \<Rightarrow> event list \<times> 'w" where
  "worker env a [] w = ([], w)"
| "worker env a (word # jobs) w =
     (case CtxDone env w of
        (True, w1) \<Rightarrow> ([], w1)
      | (False, w1) \<Rightarrow>
          (case ScanURL env (scanner a) (Target (cfg a)) word 0 w1 of
             (Inl err, tr, w2) \<Rightarrow>
               (case worker env a jobs w2 of
                  (tr', w3) \<Rightarrow> (Send (ProgressIncrement 1) # tr @ tr', w3))
           | (Inr None, tr, w2) \<Rightarrow>
               (case worker env a jobs w2 of
                  (tr', w3) \<Rightarrow> (Send (ProgressIncrement 1) # tr @ tr', w3))
           | (Inr (Some result), tr, w2) \<Rightarrow>
               if Recursive (cfg a) \<and> StatusCode result \<ge> 200 \<and> StatusCode result < 400
               then (case recursiveScan env a result 1 w2 of
                       (tr1, w3) \<Rightarrow>
                         (case worker env a jobs w3 of
                            (tr', w4) \<Rightarrow>
                              (Send (ProgressIncrement 1) # tr @ Send (MsgResult result) # tr1 @ tr', w4)))
               else (case worker env a jobs w2 of
                       (tr', w3) \<Rightarrow>
                         (Send (ProgressIncrement 1) # tr @ Send (MsgResult result) # tr', w3))))"

subsection \<open>Writers and the flushing of buffered output\<close>

text \<open>
  A buffered writer keeps its results in memory; \<open>Flush\<close> returns at once on an empty
  buffer and otherwise creates (truncates) the file and writes the whole buffer as one
  document. The file system is a parameter: \<open>create\<close> gives the error of \<open>os.Create\<close> for
  a file name, if any; a write into a created file is taken to succeed. The effects are
  recorded as events: every call of \<open>Flush\<close> on a buffered file writer, and every document
  committed to a file. \<open>Close\<close> of a buffered writer is \<open>Flush\<close>.
\<close>

datatype out_error =
    CreateJSONFailed string
  | CreateCSVFailed string
  | FileRequired string
  | UnsupportedFormat string

datatype fs_event = FlushCall string | Commit string "Result list"

fun is_BufferedWriter :: "Writer \<Rightarrow> bool" where
  "is_BufferedWriter (ConsoleWriter v) = False"
| "is_BufferedWriter w = True"

fun Flush :: "(string \<Rightarrow> string option) \<Rightarrow> Writer \<Rightarrow> out_error option \<times> fs_event list"
  and Flush_each :: "(string \<Rightarrow> string option) \<Rightarrow> Writer list \<Rightarrow> out_error option \<times> fs_event list" where
  "Flush create (ConsoleWriter v) = (None, [])"
| "Flush create (BufferedJSONWriter filename results) =
     (if length results = 0 then (None, [FlushCall filename])
      else (case create filename of
              Some err \<Rightarrow> (Some (CreateJSONFailed err), [FlushCall filename])
            | None \<Rightarrow> (None, [FlushCall filename, Commit filename results])))"
| "Flush create (BufferedCSVWriter filename results) =
     (if length results = 0 then (None, [FlushCall filename])
      else (case create filename of
              Some err \<Rightarrow> (Some (CreateCSVFailed err), [FlushCall filename])
            | None \<Rightarrow> (None, [FlushCall filename, Commit filename results])))"
| "Flush create (MultiWriter writers) = Flush_each create writers"
| "Flush_each create [] = (None, [])"
| "Flush_each create (w # ws) =
     (if is_BufferedWriter w then
        (case Flush create w of
           (Some err, ev) \<Rightarrow> (Some err, ev)
         | (None, ev) \<Rightarrow> (case Flush_each create ws of (e, ev') \<Rightarrow> (e, ev @ ev')))
      else Flush_each create ws)"

fun Close :: "(string \<Rightarrow> string option) \<Rightarrow> Writer \<Rightarrow> out_error option \<times> fs_event list"
  and Close_each :: "(string \<Rightarrow> string option) \<Rightarrow> Writer list \<Rightarrow> out_error option \<times> fs_event list" where
  "Close create (ConsoleWriter v) = (None, [])"
| "Close create (BufferedJSONWriter filename results) =
     Flush create (BufferedJSONWriter filename results)"
| "Close create (BufferedCSVWriter filename results) =
     Flush create (BufferedCSVWriter filename results)"
| "Close create (MultiWriter writers) = Close_each create writers"
| "Close_each create [] = (None, [])"
| "Close_each create (w # ws) =
     (case Close create w of
        (Some err, ev) \<Rightarrow> (Some err, ev)
      | (None, ev) \<Rightarrow> (case Close_each create ws of (e, ev') \<Rightarrow> (e, ev @ ev')))"

text \<open>\<open>Write\<close> never fails on these writers: it prints, or appends to the buffer.\<close>

fun Write :: "Writer \<Rightarrow> Result \<Rightarrow> Writer" where
  "Write (ConsoleWriter v) result = ConsoleWriter v"
| "Write (BufferedJSONWriter filename results) result = BufferedJSONWriter filename (results @ [result])"
| "Write (BufferedCSVWriter filename results) result = BufferedCSVWriter filename (results @ [result])"
| "Write (MultiWriter writers) result = MultiWriter (map (\<lambda>w. Write w result) writers)"

definition CreateBufferedWriter :: "string \<Rightarrow> string \<Rightarrow> bool \<Rightarrow> out_error + Writer" where
  "CreateBufferedWriter format filename verbose =
     (if format = ''console'' then Inr (ConsoleWriter verbose)
      else if format = ''json'' then
        (if filename = [] then Inl (FileRequired ''JSON'') else Inr (BufferedJSONWriter filename []))
      else if format = ''csv'' then
        (if filename = [] then Inl (FileRequired ''CSV'') else Inr (BufferedCSVWriter filename []))
      else Inl (UnsupportedFormat format))"

text \<open>The writer that \<open>NewApp\<close> builds from the output configuration.\<close>

definition NewApp_writer :: "OutputConfig \<Rightarrow> out_error + Writer" where
  "NewApp_writer out =
     (if File out \<noteq> [] then
        (case CreateBufferedWriter (Format out) (File out) (Verbose out) of
           Inl err \<Rightarrow> Inl err
         | Inr fileWriter \<Rightarrow> Inr (MultiWriter [ConsoleWriter (Verbose out), fileWriter]))
      else Inr (ConsoleWriter (Verbose out)))"

definition flushBufferedOutput :: "(string \<Rightarrow> string option) \<Rightarrow> App \<Rightarrow> out_error option \<times> fs_event list" where
  "flushBufferedOutput create a =
     (case writer a of
        None \<Rightarrow> (None, [])
      | Some (MultiWriter writers) \<Rightarrow> Flush create (MultiWriter writers)
      | Some w \<Rightarrow> if is_BufferedWriter w then Flush create w else (None, []))"

text \<open>
  The two places that run on the cancellation path. The goroutine of
  \<open>setupSignalHandling\<close> flushes and then cancels the context. When \<open>scan\<close> has returned,
  \<open>Run\<close> flushes and closes the writer (an error of either is logged, not returned).
  Between the two, \<open>outputManager\<close> may still have written the results \<open>late\<close> that it
  took from the channel before it saw the context done.
\<close>

definition on_signal :: "(string \<Rightarrow> string option) \<Rightarrow> App \<Rightarrow> fs_event list" where
  "on_signal create a = snd (flushBufferedOutput create a)"

definition Run_after_scan :: "(string \<Rightarrow> string option) \<Rightarrow> App \<Rightarrow> fs_event list" where
  "Run_after_scan create a =
     snd (flushBufferedOutput create a) @
     (case writer a of None \<Rightarrow> [] | Some w \<Rightarrow> snd (Close create w))"

definition write_all :: "App \<Rightarrow> Result list \<Rightarrow> App" where
  "write_all a results = a\<lparr>writer := map_option (\<lambda>w. foldl Write w results) (writer a)\<rparr>"

definition cancellation_path :: "(string \<Rightarrow> string option) \<Rightarrow> App \<Rightarrow> Result list \<Rightarrow> fs_event list" where
  "cancellation_path create a late = on_signal create a @ Run_after_scan create (write_all a late)"

definition flush_calls :: "string \<Rightarrow> fs_event list \<Rightarrow> nat" where
  "flush_calls filename ev = length (filter (\<lambda>e. e = FlushCall filename) ev)"

definition commits :: "string \<Rightarrow> fs_event list \<Rightarrow> Result list list" where
  "commits filename ev = concat (map (\<lambda>e. case e of Commit f rs \<Rightarrow> if f = filename then [rs] else [] | _ \<Rightarrow> []) ev)"

subsection \<open>The library's URL parser, for concrete runs\<close>

text \<open>
  The general statements below hold for every parser passed as \<open>UrlParse\<close>. Concrete runs
  need one: this is \<open>url.Parse\<close> of package net/url as far as the path is concerned. It
  cuts off the fragment, refuses control bytes, splits off a scheme and the query, treats
  a rootless path behind a scheme as opaque, refuses a colon in the first segment of a
  relative path, splits off an authority and decodes the percent escapes of the path.
  The authority is kept as written: the library also splits and validates it, and
  refuses some that this model accepts.
\<close>

definition ishex :: "char \<Rightarrow> bool" where
  "ishex c = (let n = (of_char c :: nat) in
                (48 \<le> n \<and> n \<le> 57) \<or> (97 \<le> n \<and> n \<le> 102) \<or> (65 \<le> n \<and> n \<le> 70))"

definition unhex :: "char \<Rightarrow> nat" where
  "unhex c = (let n = (of_char c :: nat) in
                if 48 \<le> n \<and> n \<le> 57 then n - 48
                else if 97 \<le> n \<and> n \<le> 102 then n - 97 + 10
                else if 65 \<le> n \<and> n \<le> 70 then n - 65 + 10
                else 0)"

fun unescape :: "string \<Rightarrow> string option" where
  "unescape [] = Some []"
| "unescape (c # cs) =
     (if c = CHR ''%'' then
        (case cs of
           a # b # rest \<Rightarrow>
             if ishex a \<and> ishex b
             then map_option (\<lambda>t. char_of (unhex a * 16 + unhex b) # t) (unescape rest)
             else None
         | _ \<Rightarrow> None)
      else map_option (\<lambda>t. c # t) (unescape cs))"

definition isalpha :: "char \<Rightarrow> bool" where
  "isalpha c = (let n = (of_char c :: nat) in (97 \<le> n \<and> n \<le> 122) \<or> (65 \<le> n \<and> n \<le> 90))"

definition ToLower :: "string \<Rightarrow> string" where
  "ToLower s = map (\<lambda>c. let n = (of_char c :: nat) in
                          if 65 \<le> n \<and> n \<le> 90 then char_of (n + 32) else c) s"

fun getScheme_loop :: "string \<Rightarrow> string \<Rightarrow> string \<Rightarrow> string + (string \<times> string)" where
  "getScheme_loop rawURL seen [] = Inr ([], rawURL)"
| "getScheme_loop rawURL seen (c # cs) =
     (if isalpha c then getScheme_loop rawURL (seen @ [c]) cs
      else if (48 \<le> (of_char c :: nat) \<and> (of_char c :: nat) \<le> 57) \<or> c = CHR ''+'' \<or> c = CHR ''-'' \<or> c = CHR ''.''
      then (if seen = [] then Inr ([], rawURL) else getScheme_loop rawURL (seen @ [c]) cs)
      else if c = CHR '':''
      then (if seen = [] then Inl ''missing protocol scheme'' else Inr (seen, cs))
      else Inr ([], rawURL))"

definition getScheme :: "string \<Rightarrow> string + (string \<times> string)" where
  "getScheme rawURL = getScheme_loop rawURL [] rawURL"

definition stringContainsCTLByte :: "string \<Rightarrow> bool" where
  "stringContainsCTLByte s = list_ex (\<lambda>b. (of_char b :: nat) < 32 \<or> (of_char b :: nat) = 127) s"

definition Cut :: "string \<Rightarrow> char \<Rightarrow> string \<times> string" where
  "Cut s sep = (takeWhile (\<lambda>c. c \<noteq> sep) s, drop 1 (dropWhile (\<lambda>c. c \<noteq> sep) s))"

definition parse_rest :: "string \<Rightarrow> string + URL" where
  "parse_rest rawURL =
     (if stringContainsCTLByte rawURL then Inl ''net/url: invalid control character in URL''
      else if rawURL = ''*''
      then Inr \<lparr>Scheme = [], Opaque = [], Host = [], Path = ''*'', RawQuery = [], Fragment = []\<rparr>
      else
        (case getScheme rawURL of
           Inl err \<Rightarrow> Inl err
         | Inr (scheme, rest0) \<Rightarrow>
             (let (rest, query) =
                    (if rest0 \<noteq> [] \<and> last rest0 = CHR ''?'' \<and> count_list rest0 (CHR ''?'') = 1
                     then (butlast rest0, [])
                     else Cut rest0 (CHR ''?''))
              in if \<not> HasPrefix rest ''/'' \<and> scheme \<noteq> []
                 then Inr \<lparr>Scheme = ToLower scheme, Opaque = rest, Host = [], Path = [],
                           RawQuery = query, Fragment = []\<rparr>
                 else if \<not> HasPrefix rest ''/'' \<and> Contains (fst (Cut rest (CHR ''/''))) '':''
                 then Inl ''first path segment in URL cannot contain colon''
                 else
                   (let (host, rest') =
                          (if (scheme \<noteq> [] \<or> \<not> HasPrefix rest ''///'') \<and> HasPrefix rest ''//''
                           then (takeWhile (\<lambda>c. c \<noteq> CHR ''/'') (drop 2 rest),
                                 dropWhile (\<lambda>c. c \<noteq> CHR ''/'') (drop 2 rest))
                           else ([], rest))
                    in case unescape rest' of
                         None \<Rightarrow> Inl ''invalid URL escape''
                       | Some p \<Rightarrow>
                           Inr \<lparr>Scheme = ToLower scheme, Opaque = [], Host = host, Path = p,
                                RawQuery = query, Fragment = []\<rparr>))))"

definition Parse :: "string \<Rightarrow> string + URL" where
  "Parse rawURL =
     (case parse_rest (fst (Cut rawURL (CHR ''#''))) of
        Inl err \<Rightarrow> Inl err
      | Inr u \<Rightarrow>
          if snd (Cut rawURL (CHR ''#'')) = [] then Inr u
          else (case unescape (snd (Cut rawURL (CHR ''#''))) of
                  None \<Rightarrow> Inl ''invalid URL escape''
                | Some f \<Rightarrow> Inr (u\<lparr>Fragment := f\<rparr>)))"

text \<open>
  A scripted transport for concrete runs: the world is the list of outcomes that the
  coming calls of \<open>Do\<close> will have (a transport error without a response once the script
  is used up); requests are always built, nothing is cancelled and the clock stands at 0.
\<close>

definition script_env :: "do_result list env" where
  "script_env =
     \<lparr>UrlParse = Parse,
      NewRequestErr = (\<lambda>meth url. None),
      Do = (\<lambda>meth url w. case w of [] \<Rightarrow> ((None, Some ''EOF''), []) | r # rs \<Rightarrow> (r, rs)),
      Sleep = (\<lambda>w. w),
      Now = (\<lambda>w. (0, w)),
      CtxDone = (\<lambda>w. (False, w)),
      Acquire = (\<lambda>w. (True, w))\<rparr>"

text \<open>
  A scanner for concrete runs: the default configuration with a target and two retries,
  no regular expressions and no rate limiter, as \<open>New\<close> builds it from that
  configuration; and a response with status 200.
\<close>

definition example_scanner :: Scanner where
  "example_scanner =
     \<lparr>config = DefaultConfig\<lparr>Target := ''http://test.local'', RetryCount := 2\<rparr>,
      includeRegex = None, excludeRegex = None, rateLimiter = None\<rparr>"

definition ok200 :: Response where
  "ok200 = \<lparr>resp_StatusCode = 200, resp_Header = Map.empty, resp_Body = Some ''ok''\<rparr>"

text \<open>
  The seven filter rules in the words of the specification, by number: the status allow
  list, the status deny list, the size bounds, the include expression, the exclude
  expression, the include keywords and the exclude keywords. A size bound counts as
  configured when it is positive.
\<close>

definition filter_rule :: "nat \<Rightarrow> Scanner \<Rightarrow> Result \<Rightarrow> bool" where
  "filter_rule k s r =
     (let f = Filters (config s) in
      if k = 1 then (StatusCodes f \<noteq> [] \<longrightarrow> StatusCode r \<in> set (StatusCodes f))
      else if k = 2 then StatusCode r \<notin> set (ExcludeStatus f)
      else if k = 3 then (0 < MinSize f \<longrightarrow> MinSize f \<le> Size r) \<and> (0 < MaxSize f \<longrightarrow> Size r \<le> MaxSize f)
      else if k = 4 then (case includeRegex s of None \<Rightarrow> True | Some re \<Rightarrow> re (Body r))
      else if k = 5 then (case excludeRegex s of None \<Rightarrow> True | Some re \<Rightarrow> \<not> re (Body r))
      else if k = 6 then (IncludeWords f \<noteq> [] \<longrightarrow> (\<exists>w \<in> set (IncludeWords f). Contains (Body r) w))
      else if k = 7 then (\<forall>w \<in> set (ExcludeWords f). \<not> Contains (Body r) w)
      else True)"

text \<open>Results and scanners for concrete runs of the filter.\<close>

definition result_with :: "int \<Rightarrow> string \<Rightarrow> Result" where
  "result_with status body =
     \<lparr>URL = ''http://test.local/a'', StatusCode = status, Size = int (length body),
      Headers = Map.empty, Body = body, Error = [], Depth = 0, Method = ''GET'', Timestamp = 0\<rparr>"

definition scanner_excluding_404 :: Scanner where
  "scanner_excluding_404 =
     \<lparr>config = DefaultConfig\<lparr>Filters := (Filters DefaultConfig)\<lparr>ExcludeStatus := [404]\<rparr>\<rparr>,
      includeRegex = None, excludeRegex = None, rateLimiter = None\<rparr>"

text \<open>
  Two scanners with content filters. The first has the exclude expression \<open>^$\<close>, which
  matches the empty text and nothing else. The second has the include expression
  \<open>admin\<close> and the exclude expression \<open>error\<close>, each matching the texts that contain the
  word, and one include and one exclude keyword.
\<close>

definition scanner_excluding_empty :: Scanner where
  "scanner_excluding_empty =
     \<lparr>config = DefaultConfig\<lparr>Filters := (Filters DefaultConfig)\<lparr>ExcludeRegex := ''^$''\<rparr>\<rparr>,
      includeRegex = None, excludeRegex = Some (\<lambda>b. b = []), rateLimiter = None\<rparr>"

definition scanner_with_content_rules :: Scanner where
  "scanner_with_content_rules =
     \<lparr>config = DefaultConfig\<lparr>Filters := (Filters DefaultConfig)
         \<lparr>IncludeRegex := ''admin'', ExcludeRegex := ''error'',
          IncludeWords := [''login''], ExcludeWords := [''logout'']\<rparr>\<rparr>,
      includeRegex = Some (\<lambda>b. Contains b ''admin''),
      excludeRegex = Some (\<lambda>b. Contains b ''error''), rateLimiter = None\<rparr>"

text \<open>
  For the path extraction: the path of a reference as the parser gives it (empty when the
  reference does not parse), the references that pass the prefix tests, and results whose
  bodies hold links.
\<close>

definition url_path :: "(string \<Rightarrow> string + URL) \<Rightarrow> string \<Rightarrow> string" where
  "url_path parse v = (case parse v of Inl err \<Rightarrow> [] | Inr u \<Rightarrow> Path u)"

definition local_ref :: "string \<Rightarrow> bool" where
  "local_ref v =
     (\<not> HasPrefix v ''http'' \<and> \<not> HasPrefix v ''mailto:'' \<and> \<not> HasPrefix v ''#'' \<and>
      \<not> HasPrefix v ''javascript:'')"

text \<open>
  The list in the words of the claim: the references that pass the prefix tests and parse
  with a non-empty path, each as it is written with one leading slash removed.
\<close>

definition refs_as_written :: "(string \<Rightarrow> string + URL) \<Rightarrow> Result \<Rightarrow> string list" where
  "refs_as_written parse r =
     map (\<lambda>v. TrimPrefix v ''/'')
       (filter (\<lambda>v. local_ref v \<and> url_path parse v \<noteq> []) (find_hrefs (Body r)))"

definition page_two_links :: Result where
  "page_two_links =
     result_with 200 ''<a href=\"admin/login\">Login</a> <a href=\"http://external.com/x\">Ext</a>''"

definition page_query_link :: Result where
  "page_query_link = result_with 200 ''<a href=\"page.html?id=3\">Next</a>''"

text \<open>The results that a goroutine sent to the output channel, read off its trace.\<close>

fun results_of :: "event list \<Rightarrow> Result list" where
  "results_of [] = []"
| "results_of (Send (MsgResult r) # tr) = r # results_of tr"
| "results_of (e # tr) = results_of tr"

text \<open>
  A site for concrete recursive runs: the page \<open>a\<close> links to \<open>b\<close>, which links to \<open>c\<close>.
  The application scans it verbosely and recursively with \<open>MaxDepth = 1\<close> and no
  retries; a second application is the same but not verbose.
\<close>

definition page_a :: Response where
  "page_a = \<lparr>resp_StatusCode = 200, resp_Header = Map.empty, resp_Body = Some ''<a href=\"b\">b</a>''\<rparr>"

definition page_b :: Response where
  "page_b = \<lparr>resp_StatusCode = 200, resp_Header = Map.empty, resp_Body = Some ''<a href=\"c\">c</a>''\<rparr>"

definition site :: "do_result list" where
  "site = [(Some page_a, None), (Some page_b, None)]"

definition recursive_config :: Config where
  "recursive_config =
     DefaultConfig\<lparr>Target := ''http://test.local'',
                   Output := \<lparr>Format = ''console'', File = [], Verbose = True\<rparr>,
                   Recursive := True, MaxDepth := 1, RetryCount := 0\<rparr>"

definition recursive_app :: App where
  "recursive_app =
     \<lparr>cfg = recursive_config,
      scanner = \<lparr>config = recursive_config, includeRegex = None, excludeRegex = None,
                 rateLimiter = None\<rparr>,
      writer = None\<rparr>"

definition quiet_config :: Config where
  "quiet_config = recursive_config\<lparr>Output := \<lparr>Format = ''console'', File = [], Verbose = False\<rparr>\<rparr>"

definition quiet_app :: App where
  "quiet_app =
     \<lparr>cfg = quiet_config,
      scanner = \<lparr>config = quiet_config, includeRegex = None, excludeRegex = None,
                 rateLimiter = None\<rparr>,
      writer = None\<rparr>"


text \<open>
  An environment with a rate limiter for concrete runs. Its world holds the channel, the
  state of the context and the scripted transport; its \<open>Acquire\<close> is the \<open>select\<close> on that
  channel and context, preferring the token when both are ready. A \<open>select\<close> that blocks
  is woken by the next tick of the refill goroutine, whose token it takes at once, which
  leaves the channel as it was.
\<close>

record limited_world =
  lw_chan :: chan
  lw_done :: bool
  lw_script :: "do_result list"

definition limited_env :: "limited_world env" where
  "limited_env =
     \<lparr>UrlParse = Parse,
      NewRequestErr = (\<lambda>meth url. None),
      Do = (\<lambda>meth url w. case lw_script w of
                             [] \<Rightarrow> ((None, Some ''EOF''), w)
                           | r # rs \<Rightarrow> (r, w\<lparr>lw_script := rs\<rparr>)),
      Sleep = (\<lambda>w. w),
      Now = (\<lambda>w. (0, w)),
      CtxDone = (\<lambda>w. (lw_done w, w)),
      Acquire = (\<lambda>w. case acquire_select (lw_chan w) (lw_done w) True of
                        Some (b, c) \<Rightarrow> (b, w\<lparr>lw_chan := c\<rparr>)
                      | None \<Rightarrow> (True, w))\<rparr>"

definition limited_scanner :: Scanner where
  "limited_scanner =
     \<lparr>config = DefaultConfig\<lparr>Target := ''http://test.local'',
                               RateLimit := \<lparr>Enabled = True, RequestsPerSecond = 5\<rparr>,
                               RetryCount := 0\<rparr>,
      includeRegex = None, excludeRegex = None, rateLimiter = Some 5\<rparr>"

text \<open>
  An application with a buffered JSON file writer, as \<open>NewApp\<close> builds it for the output
  file \<open>out.json\<close>, after its writer has received the given results; and a file system in
  which every file can be created.
\<close>

definition json_output :: OutputConfig where
  "json_output = \<lparr>Format = ''json'', File = ''out.json'', Verbose = False\<rparr>"

definition json_app :: "Result list \<Rightarrow> App" where
  "json_app results =
     \<lparr>cfg = DefaultConfig\<lparr>Target := ''http://test.local'', Output := json_output\<rparr>,
      scanner = example_scanner,
      writer = Some (foldl Write
                 (MultiWriter [ConsoleWriter False, BufferedJSONWriter ''out.json'' []]) results)\<rparr>"

definition creatable :: "string \<Rightarrow> string option" where
  "creatable filename = None"

section \<open>Verification\<close>

subsection \<open>The retry loop\<close>

lemma retry_loop_end:
  "\<not> i \<le> rc \<Longrightarrow> retry_loop env rc m u i err resp w = (LoopEnd err resp, [], w)"
  by (subst retry_loop.simps) simp

lemma retry_loop_early:
  "i \<le> rc \<Longrightarrow> NewRequestErr env m u = Some e \<Longrightarrow>
   retry_loop env rc m u i err resp w = (EarlyReturn (err_create_request @ e), [], w)"
  by (subst retry_loop.simps) simp

lemma retry_loop_success:
  "i \<le> rc \<Longrightarrow> NewRequestErr env m u = None \<Longrightarrow> Do env m u w = ((r, None), w1) \<Longrightarrow>
   retry_loop env rc m u i err resp w = (LoopEnd err r, [HttpDo m u], w1)"
  by (subst retry_loop.simps) simp

lemma retry_loop_retry:
  "i < rc \<Longrightarrow> NewRequestErr env m u = None \<Longrightarrow> Do env m u w = ((r, Some e), w1) \<Longrightarrow>
   retry_loop env rc m u i err resp w =
     (case retry_loop env rc m u (i + 1) err r (Sleep env w1) of
        (ex, tr, w2) \<Rightarrow> (ex, HttpDo m u # Slept # tr, w2))"
  by (subst retry_loop.simps) simp

lemma retry_loop_last:
  "i = rc \<Longrightarrow> NewRequestErr env m u = None \<Longrightarrow> Do env m u w = ((r, Some e), w1) \<Longrightarrow>
   retry_loop env rc m u i err resp w = (LoopEnd err r, [HttpDo m u], w1)"
  by (subst retry_loop.simps) (simp add: retry_loop_end)

lemma retry_loop_attempts_le:
  "attempts (fst (snd (retry_loop env rc m u i err resp w))) \<le> nat (rc + 1 - i)"
proof (induction "nat (rc + 1 - i)" arbitrary: i resp w)
  case 0
  then have "\<not> i \<le> rc" by simp
  then show ?case by (simp add: retry_loop_end attempts_def)
next
  case (Suc n)
  then have le: "i \<le> rc" by simp
  show ?case
  proof (cases "NewRequestErr env m u")
    case (Some e)
    with le show ?thesis by (simp add: retry_loop_early attempts_def)
  next
    case None
    obtain r e w1 where d: "Do env m u w = ((r, e), w1)"
      by (metis prod.exhaust)
    show ?thesis
    proof (cases e)
      case None
      with le \<open>NewRequestErr env m u = None\<close> d show ?thesis
        by (simp add: retry_loop_success attempts_def)
    next
      case (Some x)
      show ?thesis
      proof (cases "i < rc")
        case True
        from Suc.hyps(2) have n: "n = nat (rc + 1 - (i + 1))" by simp
        from Suc.hyps(1)[OF n, of r "Sleep env w1"] Suc.hyps(2)
        show ?thesis
          using True \<open>NewRequestErr env m u = None\<close> d Some
          by (auto simp: retry_loop_retry attempts_def case_prod_beta)
      next
        case False
        with le have "i = rc" by simp
        then show ?thesis using \<open>NewRequestErr env m u = None\<close> d Some
          by (simp add: retry_loop_last attempts_def)
      qed
    qed
  qed
qed

lemma retry_loop_err_unchanged:
  "fst (retry_loop env rc m u i err resp w) = LoopEnd err' resp' \<Longrightarrow> err' = err"
proof (induction "nat (rc + 1 - i)" arbitrary: i resp w)
  case 0
  then have "\<not> i \<le> rc" by simp
  with 0 show ?case by (simp add: retry_loop_end)
next
  case (Suc n)
  then have le: "i \<le> rc" by simp
  show ?case
  proof (cases "NewRequestErr env m u")
    case (Some e)
    with le Suc.prems show ?thesis by (simp add: retry_loop_early)
  next
    case None
    obtain r e w1 where d: "Do env m u w = ((r, e), w1)"
      by (metis prod.exhaust)
    show ?thesis
    proof (cases e)
      case None
      with le \<open>NewRequestErr env m u = None\<close> d Suc.prems show ?thesis
        by (simp add: retry_loop_success)
    next
      case (Some x)
      show ?thesis
      proof (cases "i < rc")
        case True
        from Suc.hyps(2) have n: "n = nat (rc + 1 - (i + 1))" by simp
        from Suc.hyps(1)[OF n, of r "Sleep env w1"] Suc.prems
        show ?thesis
          using True \<open>NewRequestErr env m u = None\<close> d Some
          by (auto simp: retry_loop_retry case_prod_beta)
      next
        case False
        with le have "i = rc" by simp
        then show ?thesis using \<open>NewRequestErr env m u = None\<close> d Some Suc.prems
          by (simp add: retry_loop_last)
      qed
    qed
  qed
qed


lemma retry_loop_succeeds_at:
  assumes req: "NewRequestErr env m u = None"
    and fails: "\<forall>j<k. snd (fst (Do env m u (world_before env m u j w))) \<noteq> None"
    and ok: "Do env m u (world_before env m u k w) = ((Some r, None), w')"
    and le: "i + int k \<le> rc"
  shows "retry_loop env rc m u i err resp w =
           (LoopEnd err (Some r), concat (replicate k [HttpDo m u, Slept]) @ [HttpDo m u], w')"
  using fails ok le
proof (induction k arbitrary: i w resp)
  case 0
  then show ?case using req by (simp add: retry_loop_success)
next
  case (Suc k)
  obtain r0 e0 w1 where d: "Do env m u w = ((r0, e0), w1)"
    by (metis prod.exhaust)
  from Suc.prems(1) have "snd (fst (Do env m u (world_before env m u 0 w))) \<noteq> None"
    by blast
  with d obtain x where e0: "e0 = Some x" by auto
  have lt: "i < rc" using Suc.prems(3) by simp
  have f': "\<forall>j<k. snd (fst (Do env m u (world_before env m u j (Sleep env w1)))) \<noteq> None"
  proof (intro allI impI)
    fix j assume "j < k"
    then have "Suc j < Suc k" by simp
    with Suc.prems(1) have "snd (fst (Do env m u (world_before env m u (Suc j) w))) \<noteq> None"
      by blast
    then show "snd (fst (Do env m u (world_before env m u j (Sleep env w1)))) \<noteq> None"
      using d by simp
  qed
  have ok': "Do env m u (world_before env m u k (Sleep env w1)) = ((Some r, None), w')"
    using Suc.prems(2) d by simp
  have le': "(i + 1) + int k \<le> rc" using Suc.prems(3) by simp
  from Suc.IH[OF f' ok' le', of r0]
  show ?case using lt req d e0 by (simp add: retry_loop_retry)
qed

lemma makeRequest_attempts_le:
  "attempts (fst (snd (makeRequest env s m u d w))) \<le> nat (RetryCount (config s) + 1)"
proof -
  obtain ex tr w1 where rl: "retry_loop env (RetryCount (config s)) m u 0 None None w = (ex, tr, w1)"
    by (metis prod.exhaust)
  have "attempts tr \<le> nat (RetryCount (config s) + 1)"
    using retry_loop_attempts_le[of env "RetryCount (config s)" m u 0 None None w] rl by simp
  moreover have "fst (snd (makeRequest env s m u d w)) = tr"
    using rl by (simp add: makeRequest_def Let_def split: loop_exit.splits prod.splits option.splits)
  ultimately show ?thesis by simp
qed

lemma attempts_retries: "attempts (concat (replicate k [HttpDo m u, Slept]) @ [HttpDo m u]) = Suc k"
  by (induction k) (simp_all add: attempts_def)

lemma sleeps_retries: "sleeps (concat (replicate k [HttpDo m u, Slept]) @ [HttpDo m u]) = k"
  by (induction k) (simp_all add: sleeps_def)

text \<open>
  Claim C7. Every run of \<open>makeRequest\<close> sends at most \<open>RetryCount + 1\<close> requests. When the
  request can be built, the attempts numbered \<open>0\<close> to \<open>k - 1\<close> fail (each followed by the
  retry delay), and attempt \<open>k \<le> RetryCount\<close> returns a response \<open>r\<close> without an error,
  then \<open>makeRequest\<close> returns a result with the status code of \<open>r\<close> and an empty \<open>Error\<close>,
  after exactly \<open>k + 1\<close> requests and \<open>k\<close> sleeps: nothing is sent after the success.
  (The claim counts attempts from 1: its attempt \<open>k\<close> is attempt \<open>k - 1\<close> here.)
\<close>

theorem makeRequest_retry_bound_and_success:
  "attempts (fst (snd (makeRequest env s m u d w))) \<le> nat (RetryCount (config s) + 1) \<and>
   (NewRequestErr env m u = None \<longrightarrow> int k \<le> RetryCount (config s) \<longrightarrow>
    (\<forall>j<k. snd (fst (Do env m u (world_before env m u j w))) \<noteq> None) \<longrightarrow>
    Do env m u (world_before env m u k w) = ((Some r, None), w') \<longrightarrow>
    (\<exists>res. fst (makeRequest env s m u d w) = Inr res \<and>
           StatusCode res = resp_StatusCode r \<and> Error res = [] \<and>
           attempts (fst (snd (makeRequest env s m u d w))) = Suc k \<and>
           sleeps (fst (snd (makeRequest env s m u d w))) = k \<and>
           snd (snd (makeRequest env s m u d w)) = snd (Now env w')))"
proof (intro conjI impI)
  show "attempts (fst (snd (makeRequest env s m u d w))) \<le> nat (RetryCount (config s) + 1)"
    by (rule makeRequest_attempts_le)
next
  assume req: "NewRequestErr env m u = None"
    and le: "int k \<le> RetryCount (config s)"
    and fails: "\<forall>j<k. snd (fst (Do env m u (world_before env m u j w))) \<noteq> None"
    and ok: "Do env m u (world_before env m u k w) = ((Some r, None), w')"
  have le0: "0 + int k \<le> RetryCount (config s)" using le by simp
  note rl = retry_loop_succeeds_at[OF req fails ok le0, of None None]
  show "\<exists>res. fst (makeRequest env s m u d w) = Inr res \<and>
           StatusCode res = resp_StatusCode r \<and> Error res = [] \<and>
           attempts (fst (snd (makeRequest env s m u d w))) = Suc k \<and>
           sleeps (fst (snd (makeRequest env s m u d w))) = k \<and>
           snd (snd (makeRequest env s m u d w)) = snd (Now env w')"
    by (simp add: makeRequest_def rl attempts_retries sleeps_retries Let_def split: prod.splits)
qed

text \<open>
  With \<open>RetryCount = 2\<close> and a transport that fails twice and then answers 200, three
  requests are sent and the result carries status 200 and no error.
\<close>

theorem makeRequest_third_attempt_succeeds:
  "NewRequestErr script_env ''GET'' ''http://test.local/a'' = None \<and>
   int 2 \<le> RetryCount (config example_scanner) \<and>
   (\<exists>res. fst (makeRequest script_env example_scanner ''GET'' ''http://test.local/a'' 0
              [(None, Some ''timeout''), (None, Some ''timeout''), (Some ok200, None)]) = Inr res \<and>
          StatusCode res = 200 \<and> Error res = [] \<and>
          attempts (fst (snd (makeRequest script_env example_scanner ''GET'' ''http://test.local/a'' 0
              [(None, Some ''timeout''), (None, Some ''timeout''), (Some ok200, None)]))) = 3)"
proof -
  let ?w = "[(None, Some ''timeout''), (None, Some ''timeout''), (Some ok200, None)] :: do_result list"
  have req: "NewRequestErr script_env ''GET'' ''http://test.local/a'' = None"
    by (simp add: script_env_def)
  have le: "int 2 \<le> RetryCount (config example_scanner)"
    by (simp add: example_scanner_def DefaultConfig_def)
  have fails: "\<forall>j<2. snd (fst (Do script_env ''GET'' ''http://test.local/a''
                  (world_before script_env ''GET'' ''http://test.local/a'' j ?w))) \<noteq> None"
    by (simp add: script_env_def less_Suc_eq numeral_2_eq_2)
  have ok: "Do script_env ''GET'' ''http://test.local/a''
              (world_before script_env ''GET'' ''http://test.local/a'' 2 ?w) = ((Some ok200, None), [])"
    by (simp add: script_env_def numeral_2_eq_2)
  from makeRequest_retry_bound_and_success
         [of script_env example_scanner "''GET''" "''http://test.local/a''" 0 ?w 2 ok200 "[]"]
       req le fails ok
  show ?thesis by (auto simp: ok200_def)
qed

lemma retry_loop_transport_down:
  assumes req: "NewRequestErr env m u = None"
    and down: "\<And>w. \<exists>e w'. Do env m u w = ((None, Some e), w')"
  shows "fst (retry_loop env rc m u i err None w) = LoopEnd err None"
proof (induction "nat (rc + 1 - i)" arbitrary: i w)
  case 0
  then have "\<not> i \<le> rc" by simp
  then show ?case by (simp add: retry_loop_end)
next
  case (Suc n)
  then have le: "i \<le> rc" by simp
  from down[of w] obtain e w1 where d: "Do env m u w = ((None, Some e), w1)" by blast
  show ?case
  proof (cases "i < rc")
    case True
    from Suc.hyps(2) have n: "n = nat (rc + 1 - (i + 1))" by simp
    from Suc.hyps(1)[OF n, of "Sleep env w1"] show ?thesis
      using True req d by (simp add: retry_loop_retry case_prod_beta)
  next
    case False
    with le have "i = rc" by simp
    then show ?thesis using req d by (simp add: retry_loop_last)
  qed
qed

lemma makeRequest_transport_down:
  assumes req: "NewRequestErr env m u = None"
    and down: "\<And>w. \<exists>e w'. Do env m u w = ((None, Some e), w')"
  shows "\<exists>res. fst (makeRequest env s m u d w) = Inr res \<and> StatusCode res = 0 \<and>
               Error res = err_empty_response"
proof -
  obtain ex tr w1 where rl: "retry_loop env (RetryCount (config s)) m u 0 None None w = (ex, tr, w1)"
    by (metis prod.exhaust)
  with retry_loop_transport_down[OF req down, of "RetryCount (config s)" 0 None w]
  have "ex = LoopEnd None None" by simp
  with rl show ?thesis
    by (simp add: makeRequest_def case_prod_beta)
qed

text \<open>
  Claim C1. When every one of the \<open>RetryCount + 1\<close> attempts fails with a transport
  error, \<open>makeRequest\<close> does return a result and no Go error, with \<open>StatusCode\<close> 0 and a
  non-empty \<open>Error\<close>; but the \<open>Error\<close> is not the text of the last attempt's error. The
  \<open>err\<close> that the loop assigns is the one declared inside the loop body, so the \<open>err\<close>
  tested behind the loop is always nil, the branch that would copy \<open>err.Error()\<close> into
  the result is never taken, and the result comes from the branch for a nil response
  with its fixed text. The run below has \<open>RetryCount = 2\<close> and a transport that answers
  "connection refused" three times.
\<close>

theorem makeRequest_hides_last_error:
  "makeRequest script_env example_scanner ''GET'' ''http://test.local/a'' 0
     [(None, Some ''connection refused''), (None, Some ''connection refused''),
      (None, Some ''connection refused'')] =
   (Inr \<lparr>URL = ''http://test.local/a'', StatusCode = 0, Size = 0, Headers = Map.empty, Body = [],
         Error = err_empty_response, Depth = 0, Method = ''GET'', Timestamp = 0\<rparr>,
    [HttpDo ''GET'' ''http://test.local/a'', Slept, HttpDo ''GET'' ''http://test.local/a'', Slept,
     HttpDo ''GET'' ''http://test.local/a''], []) \<and>
   err_empty_response \<noteq> ''connection refused''"
  by (simp add: makeRequest_def example_scanner_def DefaultConfig_def script_env_def
        retry_loop.simps err_empty_response_def)

subsection \<open>The result filter\<close>

lemma code_listed_iff: "code_listed status codes = (status \<in> set codes)"
  by (induction codes) auto

lemma word_found_iff: "word_found body ws = (\<exists>w \<in> set ws. Contains body w)"
  by (induction ws) auto

lemma filter_rule_1:
  "filter_rule 1 s r =
     (\<not> (length (StatusCodes (Filters (config s))) > 0 \<and>
         \<not> code_listed (StatusCode r) (StatusCodes (Filters (config s)))))"
  by (auto simp: filter_rule_def Let_def code_listed_iff)

lemma filter_rule_2:
  "filter_rule 2 s r = (\<not> code_listed (StatusCode r) (ExcludeStatus (Filters (config s))))"
  by (simp add: filter_rule_def Let_def code_listed_iff)

lemma filter_rule_3:
  "filter_rule 3 s r =
     (\<not> (MinSize (Filters (config s)) > 0 \<and> Size r < MinSize (Filters (config s))) \<and>
      \<not> (MaxSize (Filters (config s)) > 0 \<and> Size r > MaxSize (Filters (config s))))"
  by (auto simp: filter_rule_def Let_def)

lemma filter_rule_4:
  "filter_rule 4 s r = (\<not> (case includeRegex s of None \<Rightarrow> False | Some re \<Rightarrow> \<not> re (Body r)))"
  by (simp add: filter_rule_def Let_def split: option.splits)

lemma filter_rule_5:
  "filter_rule 5 s r = (\<not> (case excludeRegex s of None \<Rightarrow> False | Some re \<Rightarrow> re (Body r)))"
  by (simp add: filter_rule_def Let_def split: option.splits)

lemma filter_rule_6:
  "filter_rule 6 s r =
     (\<not> (length (IncludeWords (Filters (config s))) > 0 \<and>
         \<not> word_found (Body r) (IncludeWords (Filters (config s)))))"
  by (auto simp: filter_rule_def Let_def word_found_iff)

lemma filter_rule_7:
  "filter_rule 7 s r = (\<not> word_found (Body r) (ExcludeWords (Filters (config s))))"
  by (simp add: filter_rule_def Let_def word_found_iff)

lemma excludedBy_first_failing:
  "excludedBy s r =
     (if \<not> filter_rule 1 s r then Some 1
      else if \<not> filter_rule 2 s r then Some 2
      else if \<not> filter_rule 3 s r then Some 3
      else if \<not> filter_rule 4 s r then Some 4
      else if \<not> filter_rule 5 s r then Some 5
      else if \<not> filter_rule 6 s r then Some 6
      else if \<not> filter_rule 7 s r then Some 7
      else None)"
  unfolding filter_rule_1 filter_rule_2 filter_rule_3 filter_rule_4 filter_rule_5
    filter_rule_6 filter_rule_7 excludedBy_def Let_def
  by simp

lemma shouldIncludeResult_excludedBy: "shouldIncludeResult s r = (excludedBy s r = None)"
  unfolding shouldIncludeResult_def excludedBy_def Let_def by simp

text \<open>
  Claim C4. \<open>shouldIncludeResult\<close> evaluates the seven rules in their order and returns
  false at the first one that fails: the \<open>return false\<close> it takes belongs to the first
  failing rule of the list 1 to 7, and it returns true exactly when no rule fails, that
  is, when all seven hold. The rules are: (1) a non-empty allow list contains the status,
  (2) the deny list does not, (3) the size is within each bound that is set (a bound is
  applied exactly when it is positive, so never when it is zero), (4) a configured
  include expression matches the body, (5) a configured exclude expression does not,
  (6) a non-empty include keyword list has a keyword that occurs in the body, (7) no
  exclude keyword occurs. With the deny list \<open>[404]\<close>, status 404 is excluded, and status
  200 is included when no other rule is configured.
\<close>

theorem shouldIncludeResult_rules:
  "excludedBy s r = List.find (\<lambda>k. \<not> filter_rule k s r) [1, 2, 3, 4, 5, 6, 7] \<and>
   shouldIncludeResult s r = (excludedBy s r = None) \<and>
   shouldIncludeResult s r = list_all (\<lambda>k. filter_rule k s r) [1, 2, 3, 4, 5, 6, 7] \<and>
   (ExcludeStatus (Filters (config s)) = [404] \<and> StatusCode r = 404 \<longrightarrow> \<not> shouldIncludeResult s r) \<and>
   (ExcludeStatus (Filters (config s)) = [404] \<and> StatusCode r = 200 \<and>
    StatusCodes (Filters (config s)) = [] \<and> MinSize (Filters (config s)) = 0 \<and>
    MaxSize (Filters (config s)) = 0 \<and> includeRegex s = None \<and> excludeRegex s = None \<and>
    IncludeWords (Filters (config s)) = [] \<and> ExcludeWords (Filters (config s)) = []
    \<longrightarrow> shouldIncludeResult s r)"
proof (intro conjI impI)
  show f: "excludedBy s r = List.find (\<lambda>k. \<not> filter_rule k s r) [1, 2, 3, 4, 5, 6, 7]"
    by (simp add: excludedBy_first_failing)
  show "shouldIncludeResult s r = (excludedBy s r = None)"
    by (rule shouldIncludeResult_excludedBy)
  show "shouldIncludeResult s r = list_all (\<lambda>k. filter_rule k s r) [1, 2, 3, 4, 5, 6, 7]"
    by (simp add: shouldIncludeResult_excludedBy excludedBy_first_failing)
next
  assume "ExcludeStatus (Filters (config s)) = [404] \<and> StatusCode r = 404"
  then show "\<not> shouldIncludeResult s r"
    by (simp add: shouldIncludeResult_def Let_def)
next
  assume "ExcludeStatus (Filters (config s)) = [404] \<and> StatusCode r = 200 \<and>
    StatusCodes (Filters (config s)) = [] \<and> MinSize (Filters (config s)) = 0 \<and>
    MaxSize (Filters (config s)) = 0 \<and> includeRegex s = None \<and> excludeRegex s = None \<and>
    IncludeWords (Filters (config s)) = [] \<and> ExcludeWords (Filters (config s)) = []"
  then show "shouldIncludeResult s r"
    by (simp add: shouldIncludeResult_def Let_def)
qed

text \<open>The two runs of the claim: status 404 is excluded by rule 2, status 200 is included.\<close>

theorem shouldIncludeResult_404_and_200:
  "ExcludeStatus (Filters (config scanner_excluding_404)) = [404] \<and>
   StatusCode (result_with 404 []) = 404 \<and>
   \<not> shouldIncludeResult scanner_excluding_404 (result_with 404 []) \<and>
   excludedBy scanner_excluding_404 (result_with 404 []) = Some 2 \<and>
   shouldIncludeResult scanner_excluding_404 (result_with 200 [])"
  using shouldIncludeResult_rules [of scanner_excluding_404 "result_with 404 []"]
        shouldIncludeResult_rules [of scanner_excluding_404 "result_with 200 []"]
  by (simp add: scanner_excluding_404_def result_with_def DefaultConfig_def filter_rule_def)

lemma word_found_empty_body: "word_found [] ws = ([] \<in> set ws)"
  by (induction ws) auto

text \<open>
  Claim C9, as the code has it. The filter has no notion of a body that was not captured:
  on a result with an empty body the expression and keyword checks run on the empty
  text. So the result passes exactly when rules 1 to 3 hold, a configured include
  expression matches the empty text, a configured exclude expression does not, the
  include keyword list is empty or contains the empty keyword, and no exclude keyword
  is empty. When no configured expression matches the empty text and no keyword is
  empty, this is what the claim says: neither the exclude expression nor an exclude
  keyword excludes the result, and a configured include expression or include keyword list
  finds no match (which excludes the result).
\<close>

theorem shouldIncludeResult_empty_body:
  "Body r = [] \<longrightarrow>
     shouldIncludeResult s r =
       (filter_rule 1 s r \<and> filter_rule 2 s r \<and> filter_rule 3 s r \<and>
        (case includeRegex s of None \<Rightarrow> True | Some re \<Rightarrow> re []) \<and>
        (case excludeRegex s of None \<Rightarrow> True | Some re \<Rightarrow> \<not> re []) \<and>
        (IncludeWords (Filters (config s)) = [] \<or> [] \<in> set (IncludeWords (Filters (config s)))) \<and>
        [] \<notin> set (ExcludeWords (Filters (config s)))) \<and>
     ((case includeRegex s of None \<Rightarrow> True | Some re \<Rightarrow> \<not> re []) \<and>
      (case excludeRegex s of None \<Rightarrow> True | Some re \<Rightarrow> \<not> re []) \<and>
      [] \<notin> set (IncludeWords (Filters (config s))) \<and>
      [] \<notin> set (ExcludeWords (Filters (config s))) \<longrightarrow>
        excludedBy s r \<noteq> Some 5 \<and> excludedBy s r \<noteq> Some 7 \<and>
        filter_rule 5 s r \<and> filter_rule 7 s r \<and>
        (includeRegex s \<noteq> None \<longrightarrow> \<not> filter_rule 4 s r \<and> \<not> shouldIncludeResult s r) \<and>
        (IncludeWords (Filters (config s)) \<noteq> [] \<longrightarrow> \<not> filter_rule 6 s r \<and> \<not> shouldIncludeResult s r))"
proof (intro impI conjI)
  assume b: "Body r = []"
  have r4: "filter_rule 4 s r = (case includeRegex s of None \<Rightarrow> True | Some re \<Rightarrow> re [])"
    using b by (simp add: filter_rule_def split: option.splits)
  have r5: "filter_rule 5 s r = (case excludeRegex s of None \<Rightarrow> True | Some re \<Rightarrow> \<not> re [])"
    using b by (simp add: filter_rule_def split: option.splits)
  have r6: "filter_rule 6 s r =
      (IncludeWords (Filters (config s)) = [] \<or> [] \<in> set (IncludeWords (Filters (config s))))"
    using b by (auto simp: filter_rule_6 word_found_empty_body)
  have r7: "filter_rule 7 s r = ([] \<notin> set (ExcludeWords (Filters (config s))))"
    using b by (simp add: filter_rule_7 word_found_empty_body)
  have all: "shouldIncludeResult s r =
      (filter_rule 1 s r \<and> filter_rule 2 s r \<and> filter_rule 3 s r \<and> filter_rule 4 s r \<and>
       filter_rule 5 s r \<and> filter_rule 6 s r \<and> filter_rule 7 s r)"
    by (simp add: shouldIncludeResult_excludedBy excludedBy_first_failing)
  show "shouldIncludeResult s r =
       (filter_rule 1 s r \<and> filter_rule 2 s r \<and> filter_rule 3 s r \<and>
        (case includeRegex s of None \<Rightarrow> True | Some re \<Rightarrow> re []) \<and>
        (case excludeRegex s of None \<Rightarrow> True | Some re \<Rightarrow> \<not> re []) \<and>
        (IncludeWords (Filters (config s)) = [] \<or> [] \<in> set (IncludeWords (Filters (config s)))) \<and>
        [] \<notin> set (ExcludeWords (Filters (config s))))"
    unfolding all r4 r5 r6 r7 by (rule refl)
  assume h: "(case includeRegex s of None \<Rightarrow> True | Some re \<Rightarrow> \<not> re []) \<and>
      (case excludeRegex s of None \<Rightarrow> True | Some re \<Rightarrow> \<not> re []) \<and>
      [] \<notin> set (IncludeWords (Filters (config s))) \<and>
      [] \<notin> set (ExcludeWords (Filters (config s)))"
  show p5: "filter_rule 5 s r" using h r5 by simp
  show p7: "filter_rule 7 s r" using h r7 by simp
  show "excludedBy s r \<noteq> Some 5" using p5 by (simp add: excludedBy_first_failing)
  show "excludedBy s r \<noteq> Some 7" using p7 by (simp add: excludedBy_first_failing)
  {
    assume "includeRegex s \<noteq> None"
    then show n4: "\<not> filter_rule 4 s r" using h r4 by (auto split: option.splits)
    then show "\<not> shouldIncludeResult s r" using all by simp
  }
  {
    assume "IncludeWords (Filters (config s)) \<noteq> []"
    then show n6: "\<not> filter_rule 6 s r" using h r6 by simp
    then show "\<not> shouldIncludeResult s r" using all by simp
  }
qed

text \<open>
  A result with an empty body under the second scanner: no expression matches the empty
  text and no keyword is empty, and the include expression excludes the result.
\<close>

theorem shouldIncludeResult_empty_body_run:
  "Body (result_with 200 []) = [] \<and>
   [] \<notin> set (IncludeWords (Filters (config scanner_with_content_rules))) \<and>
   [] \<notin> set (ExcludeWords (Filters (config scanner_with_content_rules))) \<and>
   includeRegex scanner_with_content_rules \<noteq> None \<and>
   \<not> shouldIncludeResult scanner_with_content_rules (result_with 200 []) \<and>
   excludedBy scanner_with_content_rules (result_with 200 []) \<noteq> Some 5 \<and>
   excludedBy scanner_with_content_rules (result_with 200 []) \<noteq> Some 7"
  using shouldIncludeResult_empty_body [of "result_with 200 []" scanner_with_content_rules]
  by (simp add: scanner_with_content_rules_def result_with_def DefaultConfig_def)

text \<open>
  The claim as stated fails: the exclude expression \<open>^$\<close> matches the empty body, and
  the result, which has status 200 and would pass otherwise, is excluded by rule 5.
\<close>

theorem exclude_regex_excludes_empty_body:
  "Body (result_with 200 []) = [] \<and>
   excludeRegex scanner_excluding_empty \<noteq> None \<and>
   excludedBy scanner_excluding_empty (result_with 200 []) = Some 5 \<and>
   \<not> shouldIncludeResult scanner_excluding_empty (result_with 200 []) \<and>
   shouldIncludeResult (scanner_excluding_empty\<lparr>excludeRegex := None\<rparr>) (result_with 200 [])"
  by (simp add: scanner_excluding_empty_def result_with_def DefaultConfig_def
        excludedBy_def shouldIncludeResult_def)

subsection \<open>Path extraction\<close>

lemma collect_paths_eq:
  "collect_paths parse vs =
     map (\<lambda>v. TrimPrefix (url_path parse v) ''/'')
       (filter (\<lambda>v. local_ref v \<and> url_path parse v \<noteq> []) vs)"
  by (induction vs) (auto simp: url_path_def local_ref_def split: sum.splits)

lemma find_hrefs_two_links:
  "find_hrefs (Body page_two_links) = [''admin/login'', ''http://external.com/x'']"
  by (simp add: page_two_links_def result_with_def match_href_def HasPrefix_def is_quote_def)

lemma find_hrefs_query_link:
  "find_hrefs (Body page_query_link) = [''page.html?id=3'']"
  by (simp add: page_query_link_def result_with_def match_href_def HasPrefix_def is_quote_def)

lemma Parse_admin_login: "url_path Parse ''admin/login'' = ''admin/login''"
  by (simp add: url_path_def Parse_def parse_rest_def Cut_def getScheme_def isalpha_def
        stringContainsCTLByte_def HasPrefix_def ToLower_def)

lemma Parse_query: "url_path Parse ''page.html?id=3'' = ''page.html''"
  by (simp add: url_path_def Parse_def parse_rest_def Cut_def getScheme_def isalpha_def
        stringContainsCTLByte_def HasPrefix_def ToLower_def)

lemma ExtractPaths_collect:
  "ExtractPaths env s r =
     map (\<lambda>v. TrimPrefix (url_path (UrlParse env) v) ''/'')
       (filter (\<lambda>v. local_ref v \<and> url_path (UrlParse env) v \<noteq> []) (find_hrefs (Body r)))"
  by (simp add: ExtractPaths_def collect_paths_eq)

text \<open>
  Claim C10, as the code has it. \<open>ExtractPaths\<close> goes through the references that the
  pattern finds in the body, in their order, keeps those that start with none of
  \<open>http\<close>, \<open>mailto:\<close>, \<open>#\<close> and \<open>javascript:\<close> and that the parser accepts with a non-empty
  path, and returns for each the path of the parsed URL (not the reference as written)
  with one leading slash removed. When the parser gives every kept reference back as its
  own path, the result is the list of the references themselves, each with one leading
  slash removed.
\<close>

theorem ExtractPaths_url_paths:
  "ExtractPaths env s r =
     map (\<lambda>v. TrimPrefix (url_path (UrlParse env) v) ''/'')
       (filter (\<lambda>v. local_ref v \<and> url_path (UrlParse env) v \<noteq> []) (find_hrefs (Body r))) \<and>
   ((\<forall>v \<in> set (find_hrefs (Body r)).
        local_ref v \<longrightarrow> url_path (UrlParse env) v = v \<or> url_path (UrlParse env) v = []) \<longrightarrow>
    ExtractPaths env s r = refs_as_written (UrlParse env) r)"
proof (intro conjI impI)
  show e: "ExtractPaths env s r =
     map (\<lambda>v. TrimPrefix (url_path (UrlParse env) v) ''/'')
       (filter (\<lambda>v. local_ref v \<and> url_path (UrlParse env) v \<noteq> []) (find_hrefs (Body r)))"
    by (rule ExtractPaths_collect)
  assume h: "\<forall>v \<in> set (find_hrefs (Body r)).
        local_ref v \<longrightarrow> url_path (UrlParse env) v = v \<or> url_path (UrlParse env) v = []"
  have "map (\<lambda>v. TrimPrefix (url_path (UrlParse env) v) ''/'')
          (filter (\<lambda>v. local_ref v \<and> url_path (UrlParse env) v \<noteq> []) (find_hrefs (Body r))) =
        map (\<lambda>v. TrimPrefix v ''/'')
          (filter (\<lambda>v. local_ref v \<and> url_path (UrlParse env) v \<noteq> []) (find_hrefs (Body r)))"
    using h by (intro map_cong refl) auto
  with e show "ExtractPaths env s r = refs_as_written (UrlParse env) r"
    by (simp add: refs_as_written_def)
qed

text \<open>
  The run of the claim: of the two links of the page, the external one is dropped and
  the local one, a plain path, is returned as it is written.
\<close>

theorem ExtractPaths_two_links:
  "ExtractPaths script_env example_scanner page_two_links = [''admin/login'']"
proof -
  have h: "\<forall>v \<in> set (find_hrefs (Body page_two_links)).
             local_ref v \<longrightarrow> url_path (UrlParse script_env) v = v \<or> url_path (UrlParse script_env) v = []"
    by (simp add: find_hrefs_two_links script_env_def Parse_admin_login local_ref_def HasPrefix_def)
  from ExtractPaths_url_paths [of script_env example_scanner page_two_links] h
  have "ExtractPaths script_env example_scanner page_two_links =
          refs_as_written (UrlParse script_env) page_two_links"
    by blast
  then show ?thesis
    by (simp add: refs_as_written_def find_hrefs_two_links script_env_def Parse_admin_login local_ref_def
          HasPrefix_def TrimPrefix_def)
qed

text \<open>
  The claim as stated fails on a link with a query: the reference \<open>page.html?id=3\<close>
  passes the prefix tests and parses with a non-empty path, so the claim's list is the
  reference itself, but the function returns the path \<open>page.html\<close>.
\<close>

theorem ExtractPaths_drops_query:
  "ExtractPaths script_env example_scanner page_query_link = [''page.html''] \<and>
   refs_as_written (UrlParse script_env) page_query_link = [''page.html?id=3''] \<and>
   ExtractPaths script_env example_scanner page_query_link \<noteq>
     refs_as_written (UrlParse script_env) page_query_link"
  by (simp add: ExtractPaths_collect refs_as_written_def find_hrefs_query_link script_env_def
        Parse_query local_ref_def HasPrefix_def TrimPrefix_def)

subsection \<open>What a scan returns\<close>

lemma makeRequest_result:
  assumes "fst (makeRequest env s m u d w) = Inr res"
  shows "Depth res = d \<and> (\<not> Verbose (Output (config s)) \<longrightarrow> Body res = [])"
proof -
  obtain ex tr w1 where rl: "retry_loop env (RetryCount (config s)) m u 0 None None w = (ex, tr, w1)"
    by (metis prod.exhaust)
  obtain t w2 where now: "Now env w1 = (t, w2)"
    by (metis prod.exhaust)
  show ?thesis
    using assms rl now
    by (auto simp: makeRequest_def Let_def split: loop_exit.splits option.splits if_splits)
qed

lemma try_methods_result:
  "fst (try_methods env s ms u d w) = Inr (Some res) \<Longrightarrow>
   Depth res = d \<and> (\<not> Verbose (Output (config s)) \<longrightarrow> Body res = []) \<and> shouldIncludeResult s res"
proof (induction ms arbitrary: w)
  case Nil
  then show ?case by simp
next
  case (Cons m ms)
  obtain x tr w1 where mr: "makeRequest env s m u d w = (x, tr, w1)"
    by (metis prod.exhaust)
  show ?case
  proof (cases x)
    case (Inl e)
    with Cons.prems mr have "fst (try_methods env s ms u d w1) = Inr (Some res)"
      by (simp add: case_prod_beta)
    then show ?thesis by (rule Cons.IH)
  next
    case (Inr r)
    show ?thesis
    proof (cases "shouldIncludeResult s r")
      case True
      with Cons.prems mr Inr have "res = r" by simp
      moreover from mr Inr have "fst (makeRequest env s m u d w) = Inr r" by simp
      from makeRequest_result[OF this] have "Depth r = d \<and> (\<not> Verbose (Output (config s)) \<longrightarrow> Body r = [])" .
      ultimately show ?thesis using True by simp
    next
      case False
      with Cons.prems mr Inr have "fst (try_methods env s ms u d w1) = Inr (Some res)"
        by (simp add: case_prod_beta)
      then show ?thesis by (rule Cons.IH)
    qed
  qed
qed

lemma ScanURL_result:
  assumes "fst (ScanURL env s t p d w) = Inr (Some res)"
  shows "Depth res = d \<and> (\<not> Verbose (Output (config s)) \<longrightarrow> Body res = []) \<and> shouldIncludeResult s res"
proof -
  obtain b w1 where acq: "(if rateLimiter s \<noteq> None then Acquire env w else (True, w)) = (b, w1)"
    by (metis prod.exhaust)
  from assms acq have
    "fst (try_methods env s (Methods (Scanner (config s)))
           (TrimRight t ''/'' @ ''/'' @ TrimLeft p ''/'') d w1) = Inr (Some res)"
    by (cases b; cases "Contains p ''%FUZZ%''") (simp_all add: ScanURL_def)
  then show ?thesis by (rule try_methods_result)
qed

lemma results_of_append: "results_of (tr @ tr') = results_of tr @ results_of tr'"
  by (induction tr rule: results_of.induct) simp_all

lemma retry_loop_sends_nothing: "results_of (fst (snd (retry_loop env rc m u i err resp w))) = []"
proof (induction "nat (rc + 1 - i)" arbitrary: i resp w)
  case 0
  then have "\<not> i \<le> rc" by simp
  then show ?case by (simp add: retry_loop_end)
next
  case (Suc n)
  then have le: "i \<le> rc" by simp
  show ?case
  proof (cases "NewRequestErr env m u")
    case (Some e)
    with le show ?thesis by (simp add: retry_loop_early)
  next
    case None
    obtain r e w1 where d: "Do env m u w = ((r, e), w1)"
      by (metis prod.exhaust)
    show ?thesis
    proof (cases e)
      case None
      with le \<open>NewRequestErr env m u = None\<close> d show ?thesis
        by (simp add: retry_loop_success)
    next
      case (Some x)
      show ?thesis
      proof (cases "i < rc")
        case True
        from Suc.hyps(2) have n: "n = nat (rc + 1 - (i + 1))" by simp
        from Suc.hyps(1)[OF n, of r "Sleep env w1"]
        show ?thesis
          using True \<open>NewRequestErr env m u = None\<close> d Some
          by (simp add: retry_loop_retry case_prod_beta)
      next
        case False
        with le have "i = rc" by simp
        then show ?thesis using \<open>NewRequestErr env m u = None\<close> d Some
          by (simp add: retry_loop_last)
      qed
    qed
  qed
qed

lemma makeRequest_sends_nothing: "results_of (fst (snd (makeRequest env s m u d w))) = []"
proof -
  obtain ex tr w1 where rl: "retry_loop env (RetryCount (config s)) m u 0 None None w = (ex, tr, w1)"
    by (metis prod.exhaust)
  have "results_of tr = []"
    using retry_loop_sends_nothing[of env "RetryCount (config s)" m u 0 None None w] rl by simp
  moreover have "fst (snd (makeRequest env s m u d w)) = tr"
    using rl by (simp add: makeRequest_def Let_def split: loop_exit.splits prod.splits option.splits)
  ultimately show ?thesis by simp
qed

lemma try_methods_sends_nothing: "results_of (fst (snd (try_methods env s ms u d w))) = []"
proof (induction ms arbitrary: w)
  case Nil
  then show ?case by simp
next
  case (Cons m ms)
  obtain x tr w1 where mr: "makeRequest env s m u d w = (x, tr, w1)"
    by (metis prod.exhaust)
  have tr: "results_of tr = []"
    using makeRequest_sends_nothing[of env s m u d w] mr by simp
  show ?case
    using mr tr Cons.IH[of w1]
    by (cases x) (simp_all add: case_prod_beta results_of_append)
qed

lemma ScanURL_sends_nothing: "results_of (fst (snd (ScanURL env s t p d w))) = []"
proof -
  obtain b w1 where acq: "(if rateLimiter s \<noteq> None then Acquire env w else (True, w)) = (b, w1)"
    by (metis prod.exhaust)
  show ?thesis
    using acq try_methods_sends_nothing[of env s "Methods (Scanner (config s))"
        "TrimRight t ''/'' @ ''/'' @ TrimLeft p ''/''" d w1]
    by (cases b; cases "Contains p ''%FUZZ%''") (simp_all add: ScanURL_def)
qed

subsection \<open>Bounded recursion\<close>

lemma scan_paths_depths_step:
  assumes rec: "\<And>parent w. \<forall>r \<in> set (results_of (fst (recursiveScan env a parent (depth + 1) w))).
                   depth + 1 \<le> Depth r \<and> Depth r \<le> MaxDepth (cfg a)"
    and le: "depth \<le> MaxDepth (cfg a)"
  shows "\<forall>r \<in> set (results_of (fst (scan_paths env a paths depth w))).
           depth \<le> Depth r \<and> Depth r \<le> MaxDepth (cfg a)"
proof (induction paths arbitrary: w)
  case Nil
  show ?case by simp
next
  case (Cons path rest)
  obtain c w1 where ctx: "CtxDone env w = (c, w1)" by (metis prod.exhaust)
  show ?case
  proof (cases c)
    case True
    with ctx show ?thesis by simp
  next
    case False
    obtain x tr w2 where sc: "ScanURL env (scanner a) (Target (cfg a)) path depth w1 = (x, tr, w2)"
      by (metis prod.exhaust)
    have tr: "results_of tr = []"
      using ScanURL_sends_nothing[of env "scanner a" "Target (cfg a)" path depth w1] sc by simp
    show ?thesis
    proof (cases x)
      case (Inl e)
      with ctx False sc tr Cons.IH[of w2] show ?thesis
        by (simp add: case_prod_beta results_of_append)
    next
      case (Inr ro)
      show ?thesis
      proof (cases ro)
        case None
        with Inr ctx False sc tr Cons.IH[of w2] show ?thesis
          by (simp add: case_prod_beta results_of_append)
      next
        case (Some result)
        have "fst (ScanURL env (scanner a) (Target (cfg a)) path depth w1) = Inr (Some result)"
          using sc Inr Some by simp
        from ScanURL_result[OF this] have d: "Depth result = depth" by simp
        show ?thesis
        proof (cases "StatusCode result \<ge> 200 \<and> StatusCode result < 400")
          case True
          obtain tr1 w3 where rs: "recursiveScan env a result (depth + 1) w2 = (tr1, w3)"
            by (metis prod.exhaust)
          have r1: "\<forall>r \<in> set (results_of tr1). depth + 1 \<le> Depth r \<and> Depth r \<le> MaxDepth (cfg a)"
            using rec[of result w2] rs by simp
          then have r1': "\<forall>r \<in> set (results_of tr1). depth \<le> Depth r \<and> Depth r \<le> MaxDepth (cfg a)"
            by auto
          have eq: "results_of (fst (scan_paths env a (path # rest) depth w)) =
                  result # results_of tr1 @ results_of (fst (scan_paths env a rest depth w3))"
            using ctx False sc Inr Some True rs tr
            by (simp add: case_prod_beta results_of_append del: recursiveScan.simps)
          show ?thesis
            unfolding eq using d le r1' Cons.IH[of w3] by auto
        next
          case F2: False
          then have F2': "(200 \<le> StatusCode result \<and> StatusCode result < 400) = False" by simp
          have eq: "results_of (fst (scan_paths env a (path # rest) depth w)) =
                  result # results_of (fst (scan_paths env a rest depth w2))"
            using ctx False sc Inr Some tr
            by (simp add: case_prod_beta results_of_append F2' del: recursiveScan.simps)
          show ?thesis
            unfolding eq using d le Cons.IH[of w2] by auto
        qed
      qed
    qed
  qed
qed

lemma recursiveScan_depths:
  "\<forall>r \<in> set (results_of (fst (recursiveScan env a parent depth w))).
     depth \<le> Depth r \<and> Depth r \<le> MaxDepth (cfg a)"
proof (induction "nat (MaxDepth (cfg a) + 1 - depth)" arbitrary: depth parent w)
  case 0
  then have "depth > MaxDepth (cfg a)" by simp
  then show ?case by simp
next
  case (Suc n)
  then have le: "depth \<le> MaxDepth (cfg a)" by simp
  from Suc.hyps(2) have n: "n = nat (MaxDepth (cfg a) + 1 - (depth + 1))" by simp
  have "\<forall>r \<in> set (results_of (fst (scan_paths env a (ExtractPaths env (scanner a) parent) depth w))).
           depth \<le> Depth r \<and> Depth r \<le> MaxDepth (cfg a)"
    by (rule scan_paths_depths_step[OF Suc.hyps(1)[OF n] le])
  then show ?case using le
    by (simp add: case_prod_beta results_of_append)
qed

lemma worker_depths:
  "\<forall>r \<in> set (results_of (fst (worker env a jobs w))).
     Depth r = 0 \<or> (Recursive (cfg a) \<and> 1 \<le> Depth r \<and> Depth r \<le> MaxDepth (cfg a))"
proof (induction jobs arbitrary: w)
  case Nil
  show ?case by simp
next
  case (Cons word rest)
  obtain c w1 where ctx: "CtxDone env w = (c, w1)" by (metis prod.exhaust)
  show ?case
  proof (cases c)
    case True
    with ctx show ?thesis by simp
  next
    case False
    obtain x tr w2 where sc: "ScanURL env (scanner a) (Target (cfg a)) word 0 w1 = (x, tr, w2)"
      by (metis prod.exhaust)
    have tr: "results_of tr = []"
      using ScanURL_sends_nothing[of env "scanner a" "Target (cfg a)" word 0 w1] sc by simp
    show ?thesis
    proof (cases x)
      case (Inl e)
      with ctx False sc tr Cons.IH[of w2] show ?thesis
        by (simp add: case_prod_beta results_of_append)
    next
      case (Inr ro)
      show ?thesis
      proof (cases ro)
        case None
        with Inr ctx False sc tr Cons.IH[of w2] show ?thesis
          by (simp add: case_prod_beta results_of_append)
      next
        case (Some result)
        have "fst (ScanURL env (scanner a) (Target (cfg a)) word 0 w1) = Inr (Some result)"
          using sc Inr Some by simp
        from ScanURL_result[OF this] have d: "Depth result = 0" by simp
        show ?thesis
        proof (cases "Recursive (cfg a) \<and> StatusCode result \<ge> 200 \<and> StatusCode result < 400")
          case True
          obtain tr1 w3 where rs: "recursiveScan env a result 1 w2 = (tr1, w3)"
            by (metis prod.exhaust)
          have r1: "\<forall>r \<in> set (results_of tr1). 1 \<le> Depth r \<and> Depth r \<le> MaxDepth (cfg a)"
            using recursiveScan_depths[of env a result 1 w2] rs by simp
          have eq: "results_of (fst (worker env a (word # rest) w)) =
                  result # results_of tr1 @ results_of (fst (worker env a rest w3))"
            using ctx False sc Inr Some True rs tr
            by (simp add: case_prod_beta results_of_append del: recursiveScan.simps)
          show ?thesis
            unfolding eq using d True r1 Cons.IH[of w3] by auto
        next
          case F2: False
          then have F2': "(Recursive (cfg a) \<and> 200 \<le> StatusCode result \<and> StatusCode result < 400) = False"
            by simp
          have eq: "results_of (fst (worker env a (word # rest) w)) =
                  result # results_of (fst (worker env a rest w2))"
            using ctx False sc Inr Some tr
            by (simp add: case_prod_beta results_of_append F2' del: recursiveScan.simps)
          show ?thesis
            unfolding eq using d Cons.IH[of w2] by auto
        qed
      qed
    qed
  qed
qed

lemma worker_single:
  assumes ctx: "CtxDone env w = (False, w1)"
    and sc: "ScanURL env (scanner a) (Target (cfg a)) word 0 w1 = (Inr (Some result), tr, w2)"
  shows "worker env a [word] w =
      (if Recursive (cfg a) \<and> StatusCode result \<ge> 200 \<and> StatusCode result < 400
       then (Send (ProgressIncrement 1) # tr @ Send (MsgResult result) #
               fst (recursiveScan env a result 1 w2), snd (recursiveScan env a result 1 w2))
       else (Send (ProgressIncrement 1) # tr @ [Send (MsgResult result)], w2))"
  using ctx sc by (simp add: case_prod_beta del: recursiveScan.simps)

lemma scan_paths_single:
  assumes ctx: "CtxDone env w = (False, w1)"
    and sc: "ScanURL env (scanner a) (Target (cfg a)) path depth w1 = (Inr (Some result), tr, w2)"
  shows "scan_paths env a [path] depth w =
      (if StatusCode result \<ge> 200 \<and> StatusCode result < 400
       then (Send (ProgressIncrement 1) # tr @ Send (MsgResult result) #
               fst (recursiveScan env a result (depth + 1) w2),
             snd (recursiveScan env a result (depth + 1) w2))
       else (Send (ProgressIncrement 1) # tr @ [Send (MsgResult result)], w2))"
  using ctx sc by (simp add: case_prod_beta del: recursiveScan.simps)

text \<open>
  Claim C3. Recursive scanning is bounded in depth. \<open>recursiveScan\<close> called with a depth
  above \<open>MaxDepth\<close> sends nothing and leaves the world as it is. Every result sent by
  \<open>recursiveScan parent depth\<close> has a \<open>Depth\<close> from \<open>depth\<close> to \<open>MaxDepth\<close>, and every result
  sent by a worker has \<open>Depth\<close> 0 or, only when the \<open>Recursive\<close> flag is set, a \<open>Depth\<close>
  from 1 to \<open>MaxDepth\<close>. A worker that got a result for a job calls \<open>recursiveScan\<close>, at
  depth 1, exactly when the flag is set and the status is from 200 to 399; the loop of
  \<open>recursiveScan\<close> at \<open>depth\<close> that got a result for a path calls it at \<open>depth + 1\<close>
  exactly when the status is from 200 to 399.
\<close>

theorem recursion_depth_bounded:
  "(depth > MaxDepth (cfg a) \<longrightarrow> recursiveScan env a parent depth w = ([], w)) \<and>
   (\<forall>r \<in> set (results_of (fst (recursiveScan env a parent depth w))).
      depth \<le> Depth r \<and> Depth r \<le> MaxDepth (cfg a)) \<and>
   (\<forall>r \<in> set (results_of (fst (worker env a jobs w))).
      Depth r = 0 \<or> (Recursive (cfg a) \<and> 1 \<le> Depth r \<and> Depth r \<le> MaxDepth (cfg a))) \<and>
   (CtxDone env w = (False, w1) \<and>
    ScanURL env (scanner a) (Target (cfg a)) word 0 w1 = (Inr (Some result), tr, w2) \<longrightarrow>
    worker env a [word] w =
      (if Recursive (cfg a) \<and> StatusCode result \<ge> 200 \<and> StatusCode result < 400
       then (Send (ProgressIncrement 1) # tr @ Send (MsgResult result) #
               fst (recursiveScan env a result 1 w2), snd (recursiveScan env a result 1 w2))
       else (Send (ProgressIncrement 1) # tr @ [Send (MsgResult result)], w2))) \<and>
   (CtxDone env w = (False, w1) \<and>
    ScanURL env (scanner a) (Target (cfg a)) word depth w1 = (Inr (Some result'), tr', w2') \<longrightarrow>
    scan_paths env a [word] depth w =
      (if StatusCode result' \<ge> 200 \<and> StatusCode result' < 400
       then (Send (ProgressIncrement 1) # tr' @ Send (MsgResult result') #
               fst (recursiveScan env a result' (depth + 1) w2'),
             snd (recursiveScan env a result' (depth + 1) w2'))
       else (Send (ProgressIncrement 1) # tr' @ [Send (MsgResult result')], w2')))"
proof (intro conjI impI)
  assume "depth > MaxDepth (cfg a)"
  then show "recursiveScan env a parent depth w = ([], w)" by simp
next
  show "\<forall>r \<in> set (results_of (fst (recursiveScan env a parent depth w))).
      depth \<le> Depth r \<and> Depth r \<le> MaxDepth (cfg a)"
    by (rule recursiveScan_depths)
next
  show "\<forall>r \<in> set (results_of (fst (worker env a jobs w))).
      Depth r = 0 \<or> (Recursive (cfg a) \<and> 1 \<le> Depth r \<and> Depth r \<le> MaxDepth (cfg a))"
    by (rule worker_depths)
next
  assume "CtxDone env w = (False, w1) \<and>
    ScanURL env (scanner a) (Target (cfg a)) word 0 w1 = (Inr (Some result), tr, w2)"
  then have c: "CtxDone env w = (False, w1)"
    and sc: "ScanURL env (scanner a) (Target (cfg a)) word 0 w1 = (Inr (Some result), tr, w2)"
    by simp_all
  show "worker env a [word] w =
      (if Recursive (cfg a) \<and> StatusCode result \<ge> 200 \<and> StatusCode result < 400
       then (Send (ProgressIncrement 1) # tr @ Send (MsgResult result) #
               fst (recursiveScan env a result 1 w2), snd (recursiveScan env a result 1 w2))
       else (Send (ProgressIncrement 1) # tr @ [Send (MsgResult result)], w2))"
    by (rule worker_single[OF c sc])
next
  assume "CtxDone env w = (False, w1) \<and>
    ScanURL env (scanner a) (Target (cfg a)) word depth w1 = (Inr (Some result'), tr', w2')"
  then have c: "CtxDone env w = (False, w1)"
    and sc: "ScanURL env (scanner a) (Target (cfg a)) word depth w1 = (Inr (Some result'), tr', w2')"
    by simp_all
  show "scan_paths env a [word] depth w =
      (if StatusCode result' \<ge> 200 \<and> StatusCode result' < 400
       then (Send (ProgressIncrement 1) # tr' @ Send (MsgResult result') #
               fst (recursiveScan env a result' (depth + 1) w2'),
             snd (recursiveScan env a result' (depth + 1) w2'))
       else (Send (ProgressIncrement 1) # tr' @ [Send (MsgResult result')], w2'))"
    by (rule scan_paths_single[OF c sc])
qed


text \<open>
  A run with \<open>MaxDepth = 1\<close>: the worker scans \<open>a\<close> at depth 0 and enters the recursion,
  which scans \<open>b\<close> at depth 1; the call for the links of \<open>b\<close>, at depth 2, does nothing.
\<close>

theorem recursion_stops_at_MaxDepth:
  "MaxDepth (cfg recursive_app) = 1 \<and> Recursive (cfg recursive_app) \<and>
   recursiveScan script_env recursive_app (result_with 200 ''<a href=\"c\">c</a>'') 2 [] = ([], []) \<and>
   map Depth (results_of (fst (worker script_env recursive_app [''a''] site))) = [0, 1] \<and>
   map URL (results_of (fst (worker script_env recursive_app [''a''] site))) =
     [''http://test.local/a'', ''http://test.local/b''] \<and>
   attempts (fst (worker script_env recursive_app [''a''] site)) = 2"
proof -
  have m: "MaxDepth (cfg recursive_app) = 1" and r: "Recursive (cfg recursive_app)"
    by (simp_all add: recursive_app_def recursive_config_def DefaultConfig_def)
  have deep: "2 > MaxDepth (cfg recursive_app)" using m by simp
  from recursion_depth_bounded
         [where depth = 2 and a = recursive_app and env = script_env
            and parent = "result_with 200 ''<a href=\"c\">c</a>''" and w = "[]"] deep
  have stop: "recursiveScan script_env recursive_app (result_with 200 ''<a href=\"c\">c</a>'') 2 [] = ([], [])"
    by blast
  have run: "fst (worker script_env recursive_app [''a''] site) =
      [Send (ProgressIncrement 1), HttpDo ''GET'' ''http://test.local/a'',
       Send (MsgResult \<lparr>URL = ''http://test.local/a'', StatusCode = 200, Size = 17, Headers = Map.empty,
         Body = ''<a href=\"b\">b</a>'', Error = [], Depth = 0, Method = ''GET'', Timestamp = 0\<rparr>),
       Send (ProgressMaxChange 1),
       Send (ProgressIncrement 1), HttpDo ''GET'' ''http://test.local/b'',
       Send (MsgResult \<lparr>URL = ''http://test.local/b'', StatusCode = 200, Size = 17, Headers = Map.empty,
         Body = ''<a href=\"c\">c</a>'', Error = [], Depth = 1, Method = ''GET'', Timestamp = 0\<rparr>)]"
    by (simp add: ScanURL_def recursive_app_def recursive_config_def DefaultConfig_def site_def
          HasPrefix_def TrimRight_def TrimLeft_def makeRequest_def retry_loop.simps script_env_def
          page_a_def page_b_def shouldIncludeResult_def ExtractPaths_def match_href_def is_quote_def
          Parse_def parse_rest_def Cut_def getScheme_def isalpha_def stringContainsCTLByte_def
          ToLower_def TrimPrefix_def)
  show ?thesis
    unfolding run using m r stop by (simp add: attempts_def)
qed

subsection \<open>Recursion without captured bodies\<close>

lemma ExtractPaths_empty_body: "Body r = [] \<Longrightarrow> ExtractPaths env s r = []"
  by (simp add: ExtractPaths_def)

lemma recursiveScan_empty_body: "Body r = [] \<Longrightarrow> recursiveScan env a r depth w = ([], w)"
  by (simp add: ExtractPaths_empty_body)

lemma worker_quiet:
  assumes q: "\<not> Verbose (Output (config (scanner a)))"
  shows "worker env a jobs w = worker env (a\<lparr>cfg := (cfg a)\<lparr>Recursive := False\<rparr>\<rparr>) jobs w"
proof (induction jobs arbitrary: w)
  case Nil
  show ?case by simp
next
  case (Cons word rest)
  let ?a' = "a\<lparr>cfg := (cfg a)\<lparr>Recursive := False\<rparr>\<rparr>"
  obtain c w1 where ctx: "CtxDone env w = (c, w1)" by (metis prod.exhaust)
  show ?case
  proof (cases c)
    case True
    with ctx show ?thesis by simp
  next
    case False
    obtain x tr w2 where sc: "ScanURL env (scanner a) (Target (cfg a)) word 0 w1 = (x, tr, w2)"
      by (metis prod.exhaust)
    show ?thesis
    proof (cases x)
      case (Inl e)
      with ctx False sc Cons.IH[of w2] show ?thesis
        by (simp add: case_prod_beta)
    next
      case (Inr ro)
      show ?thesis
      proof (cases ro)
        case None
        with Inr ctx False sc Cons.IH[of w2] show ?thesis
          by (simp add: case_prod_beta)
      next
        case (Some result)
        have "fst (ScanURL env (scanner a) (Target (cfg a)) word 0 w1) = Inr (Some result)"
          using sc Inr Some by simp
        from ScanURL_result[OF this] q have b: "Body result = []" by simp
        have rs: "recursiveScan env a result 1 w2 = ([], w2)"
          by (rule recursiveScan_empty_body[OF b])
        show ?thesis
          using ctx False sc Inr Some rs Cons.IH[of w2]
          by (simp add: case_prod_beta del: recursiveScan.simps)
      qed
    qed
  qed
qed

text \<open>
  Claim C6. A scanner that is not verbose produces results with an empty \<open>Body\<close>, from
  \<open>makeRequest\<close> and so from \<open>ScanURL\<close>. On a result with an empty \<open>Body\<close>, \<open>ExtractPaths\<close>
  returns no path and \<open>recursiveScan\<close> sends nothing, scans nothing and leaves the world
  as it is. So a worker whose scanner is not verbose does exactly what it does with the
  \<open>Recursive\<close> flag off: recursive scanning finds no child path unless verbose output
  is on.
\<close>

theorem no_recursion_without_verbose:
  "(\<not> Verbose (Output (config s)) \<longrightarrow>
      (fst (makeRequest env s m u d w) = Inr res \<longrightarrow> Body res = []) \<and>
      (fst (ScanURL env s t p d w) = Inr (Some res') \<longrightarrow> Body res' = [])) \<and>
   (Body r = [] \<longrightarrow>
      ExtractPaths env s r = [] \<and> recursiveScan env a r depth w = ([], w)) \<and>
   (\<not> Verbose (Output (config (scanner a))) \<longrightarrow>
      worker env a jobs w = worker env (a\<lparr>cfg := (cfg a)\<lparr>Recursive := False\<rparr>\<rparr>) jobs w)"
proof (intro conjI impI)
  assume q: "\<not> Verbose (Output (config s))"
  {
    assume "fst (makeRequest env s m u d w) = Inr res"
    from makeRequest_result[OF this] q show "Body res = []" by simp
  }
  {
    assume "fst (ScanURL env s t p d w) = Inr (Some res')"
    from ScanURL_result[OF this] q show "Body res' = []" by simp
  }
next
  assume b: "Body r = []"
  show "ExtractPaths env s r = []" by (rule ExtractPaths_empty_body[OF b])
  show "recursiveScan env a r depth w = ([], w)" by (rule recursiveScan_empty_body[OF b])
next
  assume "\<not> Verbose (Output (config (scanner a)))"
  then show "worker env a jobs w = worker env (a\<lparr>cfg := (cfg a)\<lparr>Recursive := False\<rparr>\<rparr>) jobs w"
    by (rule worker_quiet)
qed

text \<open>
  The run of the site without verbose output: the page \<open>a\<close> is scanned, its result has
  an empty body although the response had a link, and nothing else is scanned.
\<close>

theorem quiet_run_scans_one_page:
  "\<not> Verbose (Output (config (scanner quiet_app))) \<and> Recursive (cfg quiet_app) \<and>
   map Body (results_of (fst (worker script_env quiet_app [''a''] site))) = [[]] \<and>
   map URL (results_of (fst (worker script_env quiet_app [''a''] site))) = [''http://test.local/a''] \<and>
   attempts (fst (worker script_env quiet_app [''a''] site)) = 1"
proof -
  have q: "\<not> Verbose (Output (config (scanner quiet_app)))" and r: "Recursive (cfg quiet_app)"
    by (simp_all add: quiet_app_def quiet_config_def recursive_config_def DefaultConfig_def)
  from no_recursion_without_verbose [where a = quiet_app and env = script_env
         and jobs = "[''a'']" and w = site] q
  have eq: "worker script_env quiet_app [''a''] site =
            worker script_env (quiet_app\<lparr>cfg := (cfg quiet_app)\<lparr>Recursive := False\<rparr>\<rparr>) [''a''] site"
    by blast
  have run: "fst (worker script_env (quiet_app\<lparr>cfg := (cfg quiet_app)\<lparr>Recursive := False\<rparr>\<rparr>) [''a''] site) =
      [Send (ProgressIncrement 1), HttpDo ''GET'' ''http://test.local/a'',
       Send (MsgResult \<lparr>URL = ''http://test.local/a'', StatusCode = 200, Size = 17, Headers = Map.empty,
         Body = [], Error = [], Depth = 0, Method = ''GET'', Timestamp = 0\<rparr>)]"
    by (simp add: ScanURL_def quiet_app_def quiet_config_def recursive_config_def DefaultConfig_def
          site_def HasPrefix_def TrimRight_def TrimLeft_def makeRequest_def retry_loop.simps
          script_env_def page_a_def shouldIncludeResult_def)
  show ?thesis
    unfolding eq run using q r by (simp add: attempts_def)
qed

subsection \<open>Counting and dispatching jobs\<close>




















subsection \<open>The rate limiter\<close>

lemma fill_tick_bound: "tokens c \<le> capacity c \<Longrightarrow> tokens (fill_tick c) \<le> capacity (fill_tick c)"
  by (simp add: fill_tick_def)

lemma chan_step_capacity: "capacity (chan_step c x) = capacity c"
  by (cases x) (simp_all add: fill_tick_def acquire_select_def)

lemma chan_step_bound: "tokens c \<le> capacity c \<Longrightarrow> tokens (chan_step c x) \<le> capacity c"
  by (cases x) (auto simp: fill_tick_def acquire_select_def)

lemma chan_history_bound:
  "tokens c \<le> capacity c \<Longrightarrow>
   tokens (foldl chan_step c ops) \<le> capacity c \<and> capacity (foldl chan_step c ops) = capacity c"
proof (induction ops arbitrary: c)
  case Nil
  then show ?case by simp
next
  case (Cons x xs)
  from Cons.prems have "tokens (chan_step c x) \<le> capacity (chan_step c x)"
    by (simp add: chan_step_bound chan_step_capacity)
  from Cons.IH[OF this] show ?case by (simp add: chan_step_capacity)
qed

lemma ScanURL_disabled:
  "rateLimiter s = None \<Longrightarrow>
   ScanURL env s t p d w =
     (if Contains p ''%FUZZ%'' then (Inr None, [], w)
      else try_methods env s (Methods (Scanner (config s)))
             (TrimRight t ''/'' @ ''/'' @ TrimLeft p ''/'') d w)"
  by (simp add: ScanURL_def)

lemma ScanURL_token:
  "rateLimiter s \<noteq> None \<Longrightarrow> Acquire env w = (True, w1) \<Longrightarrow>
   ScanURL env s t p d w =
     (if Contains p ''%FUZZ%'' then (Inr None, [], w1)
      else try_methods env s (Methods (Scanner (config s)))
             (TrimRight t ''/'' @ ''/'' @ TrimLeft p ''/'') d w1)"
  by (simp add: ScanURL_def)

lemma ScanURL_cancelled:
  "rateLimiter s \<noteq> None \<Longrightarrow> Acquire env w = (False, w1) \<Longrightarrow>
   ScanURL env s t p d w = (Inl ctx_Canceled, [], w1)"
  by (simp add: ScanURL_def)

text \<open>
  Claim C8. \<open>New\<close> makes the rate limiter as a channel of capacity \<open>RequestsPerSecond\<close>
  exactly when rate limiting is enabled. A tick of the refill goroutine leaves the
  capacity alone, adds one token when a slot is free and nothing when the channel is
  full, so through every history of ticks and receives the channel holds at most its
  capacity. The \<open>select\<close> of \<open>ScanURL\<close> takes a token only when there is one, and then one
  token is gone; it reports the context only when the context is done, and then the
  channel is untouched; it blocks exactly when there is no token and the context is
  not done. In \<open>ScanURL\<close> with a rate limiter, a \<open>select\<close> that reports the context makes
  the call return the cancellation error without sending any request, and one that got
  a token lets the call go on; without a rate limiter the call goes on at once, in the
  world it was called in.
\<close>

theorem rate_limiter_bounded:
  "(New_rateLimiter c = Inr (Some n) \<longrightarrow>
      Enabled (RateLimit c) \<and> int n = RequestsPerSecond (RateLimit c)) \<and>
   (Enabled (RateLimit c) \<and> 0 \<le> RequestsPerSecond (RateLimit c) \<longrightarrow>
      New_rateLimiter c = Inr (Some (nat (RequestsPerSecond (RateLimit c))))) \<and>
   (\<not> Enabled (RateLimit c) \<longrightarrow> New_rateLimiter c = Inr None) \<and>
   capacity (fill_tick ch) = capacity ch \<and>
   tokens (fill_tick ch) \<le> tokens ch + 1 \<and>
   (tokens ch < capacity ch \<longrightarrow> tokens (fill_tick ch) = tokens ch + 1) \<and>
   (tokens ch \<ge> capacity ch \<longrightarrow> fill_tick ch = ch) \<and>
   tokens (foldl chan_step (make_chan k) ops) \<le> k \<and>
   (acquire_select ch ctx_done pick = Some (True, ch') \<longrightarrow>
      0 < tokens ch \<and> ch' = ch\<lparr>tokens := tokens ch - 1\<rparr>) \<and>
   (acquire_select ch ctx_done pick = Some (False, ch') \<longrightarrow> ctx_done \<and> ch' = ch) \<and>
   (acquire_select ch ctx_done pick = None \<longleftrightarrow> tokens ch = 0 \<and> \<not> ctx_done) \<and>
   (rateLimiter s \<noteq> None \<and> Acquire env w = (False, w1) \<longrightarrow>
      ScanURL env s t p d w = (Inl ctx_Canceled, [], w1)) \<and>
   (rateLimiter s \<noteq> None \<and> Acquire env w = (True, w1) \<longrightarrow>
      ScanURL env s t p d w =
        (if Contains p ''%FUZZ%'' then (Inr None, [], w1)
         else try_methods env s (Methods (Scanner (config s)))
                (TrimRight t ''/'' @ ''/'' @ TrimLeft p ''/'') d w1)) \<and>
   (rateLimiter s = None \<longrightarrow>
      ScanURL env s t p d w =
        (if Contains p ''%FUZZ%'' then (Inr None, [], w)
         else try_methods env s (Methods (Scanner (config s)))
                (TrimRight t ''/'' @ ''/'' @ TrimLeft p ''/'') d w))"
proof (intro conjI impI)
  assume "New_rateLimiter c = Inr (Some n)"
  then show "Enabled (RateLimit c)" and "int n = RequestsPerSecond (RateLimit c)"
    by (auto simp: New_rateLimiter_def split: if_splits)
next
  assume "Enabled (RateLimit c) \<and> 0 \<le> RequestsPerSecond (RateLimit c)"
  then show "New_rateLimiter c = Inr (Some (nat (RequestsPerSecond (RateLimit c))))"
    by (simp add: New_rateLimiter_def)
next
  assume "\<not> Enabled (RateLimit c)"
  then show "New_rateLimiter c = Inr None" by (simp add: New_rateLimiter_def)
next
  show "capacity (fill_tick ch) = capacity ch" by (simp add: fill_tick_def)
  show "tokens (fill_tick ch) \<le> tokens ch + 1" by (simp add: fill_tick_def)
next
  assume "tokens ch < capacity ch"
  then show "tokens (fill_tick ch) = tokens ch + 1" by (simp add: fill_tick_def)
next
  assume "tokens ch \<ge> capacity ch"
  then show "fill_tick ch = ch" by (simp add: fill_tick_def)
next
  show "tokens (foldl chan_step (make_chan k) ops) \<le> k"
    using chan_history_bound[of "make_chan k" ops] by (simp add: make_chan_def)
next
  assume "acquire_select ch ctx_done pick = Some (True, ch')"
  then show "0 < tokens ch" and "ch' = ch\<lparr>tokens := tokens ch - 1\<rparr>"
    by (auto simp: acquire_select_def split: if_splits)
next
  assume "acquire_select ch ctx_done pick = Some (False, ch')"
  then show "ctx_done" and "ch' = ch"
    by (auto simp: acquire_select_def split: if_splits)
next
  show "acquire_select ch ctx_done pick = None \<longleftrightarrow> tokens ch = 0 \<and> \<not> ctx_done"
    by (auto simp: acquire_select_def)
next
  assume "rateLimiter s \<noteq> None \<and> Acquire env w = (False, w1)"
  then show "ScanURL env s t p d w = (Inl ctx_Canceled, [], w1)"
    by (simp add: ScanURL_cancelled)
next
  assume "rateLimiter s \<noteq> None \<and> Acquire env w = (True, w1)"
  then show "ScanURL env s t p d w =
        (if Contains p ''%FUZZ%'' then (Inr None, [], w1)
         else try_methods env s (Methods (Scanner (config s)))
                (TrimRight t ''/'' @ ''/'' @ TrimLeft p ''/'') d w1)"
    by (simp add: ScanURL_token)
next
  assume "rateLimiter s = None"
  then show "ScanURL env s t p d w =
        (if Contains p ''%FUZZ%'' then (Inr None, [], w)
         else try_methods env s (Methods (Scanner (config s)))
                (TrimRight t ''/'' @ ''/'' @ TrimLeft p ''/'') d w)"
    by (rule ScanURL_disabled)
qed


text \<open>
  Runs with a rate limiter of five requests per second. Seven ticks on the new channel
  leave five tokens in it. With a token in the channel the scan takes it and sends its
  request; with an empty channel and a cancelled context it returns the cancellation
  error and sends nothing.
\<close>

theorem rate_limiter_runs:
  "New_rateLimiter (config limited_scanner) = Inr (rateLimiter limited_scanner) \<and>
   foldl chan_step (make_chan 5) (replicate 7 Tick) = \<lparr>capacity = 5, tokens = 5\<rparr> \<and>
   ScanURL limited_env limited_scanner ''http://test.local'' ''a'' 0
     \<lparr>lw_chan = \<lparr>capacity = 5, tokens = 0\<rparr>, lw_done = True, lw_script = [(Some ok200, None)]\<rparr> =
     (Inl ctx_Canceled, [],
      \<lparr>lw_chan = \<lparr>capacity = 5, tokens = 0\<rparr>, lw_done = True, lw_script = [(Some ok200, None)]\<rparr>) \<and>
   fst (snd (ScanURL limited_env limited_scanner ''http://test.local'' ''a'' 0
     \<lparr>lw_chan = \<lparr>capacity = 5, tokens = 1\<rparr>, lw_done = False, lw_script = [(Some ok200, None)]\<rparr>)) =
     [HttpDo ''GET'' ''http://test.local/a''] \<and>
   lw_chan (snd (snd (ScanURL limited_env limited_scanner ''http://test.local'' ''a'' 0
     \<lparr>lw_chan = \<lparr>capacity = 5, tokens = 1\<rparr>, lw_done = False, lw_script = [(Some ok200, None)]\<rparr>))) =
     \<lparr>capacity = 5, tokens = 0\<rparr>"
proof -
  let ?w0 = "\<lparr>lw_chan = \<lparr>capacity = 5, tokens = 0\<rparr>, lw_done = True, lw_script = [(Some ok200, None)]\<rparr>"
  let ?w1 = "\<lparr>lw_chan = \<lparr>capacity = 5, tokens = 1\<rparr>, lw_done = False, lw_script = [(Some ok200, None)]\<rparr>"
  note inst = rate_limiter_bounded [where c = "config limited_scanner" and n = 5 and k = 5
      and ops = "replicate 7 Tick" and ch = "\<lparr>capacity = 5, tokens = 0\<rparr>" and ctx_done = True
      and pick = True and ch' = "\<lparr>capacity = 5, tokens = 0\<rparr>" and s = limited_scanner
      and env = limited_env and w = ?w0 and ?w1.0 = ?w0 and t = "''http://test.local''"
      and p = "''a''" and d = 0]
  have en: "Enabled (RateLimit (config limited_scanner)) \<and>
            0 \<le> RequestsPerSecond (RateLimit (config limited_scanner))"
    by (simp add: limited_scanner_def DefaultConfig_def)
  with inst have new: "New_rateLimiter (config limited_scanner) =
      Inr (Some (nat (RequestsPerSecond (RateLimit (config limited_scanner)))))"
    by blast
  have acq: "rateLimiter limited_scanner \<noteq> None \<and> Acquire limited_env ?w0 = (False, ?w0)"
    by (simp add: limited_scanner_def limited_env_def acquire_select_def)
  with inst have cancelled: "ScanURL limited_env limited_scanner ''http://test.local'' ''a'' 0 ?w0 =
      (Inl ctx_Canceled, [], ?w0)"
    by blast
  have ticks: "foldl chan_step (make_chan 5) (replicate 7 Tick) = \<lparr>capacity = 5, tokens = 5\<rparr>"
    by (simp add: make_chan_def fill_tick_def numeral_eq_Suc)
  have run: "ScanURL limited_env limited_scanner ''http://test.local'' ''a'' 0 ?w1 =
      (Inr (Some \<lparr>URL = ''http://test.local/a'', StatusCode = 200, Size = 2, Headers = Map.empty,
         Body = [], Error = [], Depth = 0, Method = ''GET'', Timestamp = 0\<rparr>),
       [HttpDo ''GET'' ''http://test.local/a''],
       \<lparr>lw_chan = \<lparr>capacity = 5, tokens = 0\<rparr>, lw_done = False, lw_script = []\<rparr>)"
    by (simp add: ScanURL_def limited_scanner_def limited_env_def acquire_select_def
          DefaultConfig_def HasPrefix_def TrimRight_def TrimLeft_def makeRequest_def
          retry_loop.simps ok200_def shouldIncludeResult_def)
  show ?thesis
    unfolding run cancelled ticks using new by (simp add: limited_scanner_def DefaultConfig_def)
qed

subsection \<open>Flushing on the cancellation path\<close>

lemma foldl_Write_json:
  "foldl Write (MultiWriter [ConsoleWriter v, BufferedJSONWriter f b]) rs =
     MultiWriter [ConsoleWriter v, BufferedJSONWriter f (b @ rs)]"
  by (induction rs arbitrary: b) simp_all

lemma foldl_Write_csv:
  "foldl Write (MultiWriter [ConsoleWriter v, BufferedCSVWriter f b]) rs =
     MultiWriter [ConsoleWriter v, BufferedCSVWriter f (b @ rs)]"
  by (induction rs arbitrary: b) simp_all

lemma NewApp_writer_buffered:
  assumes "NewApp_writer out = Inr w0" and "File out \<noteq> []"
    and "Format out = ''json'' \<or> Format out = ''csv''"
  shows "w0 = MultiWriter [ConsoleWriter (Verbose out), BufferedJSONWriter (File out) []] \<or>
         w0 = MultiWriter [ConsoleWriter (Verbose out), BufferedCSVWriter (File out) []]"
  using assms by (auto simp: NewApp_writer_def CreateBufferedWriter_def split: if_splits)

text \<open>
  Claim C5, as the code has it. With a buffered file writer configured, the cancellation
  path calls \<open>Flush\<close> on that writer three times, not once: the signal handler flushes
  before it cancels the context, and \<open>Run\<close>, once \<open>scan\<close> has returned, flushes again and
  then closes the writer, whose \<open>Close\<close> is \<open>Flush\<close>. Every one of these calls that finds
  results in the buffer writes the file anew from the whole buffer, so the file is
  committed up to three times and its last content is one complete document with every
  result the writer received; with an empty buffer no call writes a file.
\<close>

theorem cancellation_flushes_three_times:
  "NewApp_writer out = Inr w0 \<and> File out \<noteq> [] \<and> (Format out = ''json'' \<or> Format out = ''csv'') \<longrightarrow>
     flush_calls (File out) (on_signal create (a\<lparr>writer := Some (foldl Write w0 rs)\<rparr>)) = 1 \<and>
     flush_calls (File out)
       (Run_after_scan create (write_all (a\<lparr>writer := Some (foldl Write w0 rs)\<rparr>) late)) = 2 \<and>
     flush_calls (File out)
       (cancellation_path create (a\<lparr>writer := Some (foldl Write w0 rs)\<rparr>) late) = 3 \<and>
     (create (File out) = None \<and> rs \<noteq> [] \<longrightarrow>
        commits (File out) (cancellation_path create (a\<lparr>writer := Some (foldl Write w0 rs)\<rparr>) late) =
          [rs, rs @ late, rs @ late]) \<and>
     (create (File out) = None \<and> rs = [] \<and> late \<noteq> [] \<longrightarrow>
        commits (File out) (cancellation_path create (a\<lparr>writer := Some (foldl Write w0 rs)\<rparr>) late) =
          [late, late]) \<and>
     (rs = [] \<and> late = [] \<longrightarrow>
        commits (File out) (cancellation_path create (a\<lparr>writer := Some (foldl Write w0 rs)\<rparr>) late) = [])"
proof (intro impI)
  assume h: "NewApp_writer out = Inr w0 \<and> File out \<noteq> [] \<and> (Format out = ''json'' \<or> Format out = ''csv'')"
  then have "w0 = MultiWriter [ConsoleWriter (Verbose out), BufferedJSONWriter (File out) []] \<or>
             w0 = MultiWriter [ConsoleWriter (Verbose out), BufferedCSVWriter (File out) []]"
    by (intro NewApp_writer_buffered) simp_all
  then show "flush_calls (File out) (on_signal create (a\<lparr>writer := Some (foldl Write w0 rs)\<rparr>)) = 1 \<and>
     flush_calls (File out)
       (Run_after_scan create (write_all (a\<lparr>writer := Some (foldl Write w0 rs)\<rparr>) late)) = 2 \<and>
     flush_calls (File out)
       (cancellation_path create (a\<lparr>writer := Some (foldl Write w0 rs)\<rparr>) late) = 3 \<and>
     (create (File out) = None \<and> rs \<noteq> [] \<longrightarrow>
        commits (File out) (cancellation_path create (a\<lparr>writer := Some (foldl Write w0 rs)\<rparr>) late) =
          [rs, rs @ late, rs @ late]) \<and>
     (create (File out) = None \<and> rs = [] \<and> late \<noteq> [] \<longrightarrow>
        commits (File out) (cancellation_path create (a\<lparr>writer := Some (foldl Write w0 rs)\<rparr>) late) =
          [late, late]) \<and>
     (rs = [] \<and> late = [] \<longrightarrow>
        commits (File out) (cancellation_path create (a\<lparr>writer := Some (foldl Write w0 rs)\<rparr>) late) = [])"
  proof
    assume w: "w0 = MultiWriter [ConsoleWriter (Verbose out), BufferedJSONWriter (File out) []]"
    show ?thesis
      unfolding w foldl_Write_json
      by (cases "create (File out)")
         (simp_all add: cancellation_path_def on_signal_def Run_after_scan_def write_all_def
            flushBufferedOutput_def foldl_Write_json flush_calls_def commits_def)
  next
    assume w: "w0 = MultiWriter [ConsoleWriter (Verbose out), BufferedCSVWriter (File out) []]"
    show ?thesis
      unfolding w foldl_Write_csv
      by (cases "create (File out)")
         (simp_all add: cancellation_path_def on_signal_def Run_after_scan_def write_all_def
            flushBufferedOutput_def foldl_Write_csv flush_calls_def commits_def)
  qed
qed

text \<open>
  A run: one result is in the buffer when the signal arrives and one more is written
  before the context is seen to be done. The file is written three times; the last
  document holds both results.
\<close>

theorem cancellation_run_three_flushes:
  "NewApp_writer json_output =
     Inr (MultiWriter [ConsoleWriter False, BufferedJSONWriter ''out.json'' []]) \<and>
   flush_calls ''out.json''
     (cancellation_path creatable (json_app [result_with 200 []]) [result_with 301 []]) = 3 \<and>
   commits ''out.json''
     (cancellation_path creatable (json_app [result_with 200 []]) [result_with 301 []]) =
     [[result_with 200 []], [result_with 200 [], result_with 301 []],
      [result_with 200 [], result_with 301 []]]"
proof -
  have new: "NewApp_writer json_output =
      Inr (MultiWriter [ConsoleWriter False, BufferedJSONWriter ''out.json'' []])"
    by (simp add: NewApp_writer_def CreateBufferedWriter_def json_output_def)
  have app: "json_app [result_with 200 []] =
      (json_app [])\<lparr>writer := Some (foldl Write
         (MultiWriter [ConsoleWriter False, BufferedJSONWriter ''out.json'' []]) [result_with 200 []])\<rparr>"
    by (simp add: json_app_def)
  have h: "NewApp_writer json_output =
             Inr (MultiWriter [ConsoleWriter False, BufferedJSONWriter ''out.json'' []]) \<and>
           File json_output \<noteq> [] \<and> (Format json_output = ''json'' \<or> Format json_output = ''csv'')"
    using new by (simp add: json_output_def)
  have c: "creatable (File json_output) = None \<and> [result_with 200 []] \<noteq> []"
    by (simp add: creatable_def)
  note inst = cancellation_flushes_three_times [where out = json_output
      and ?w0.0 = "MultiWriter [ConsoleWriter False, BufferedJSONWriter ''out.json'' []]"
      and create = creatable and a = "json_app []" and rs = "[result_with 200 []]"
      and late = "[result_with 301 []]"]
  from inst h c have
    "flush_calls (File json_output)
       (cancellation_path creatable (json_app [result_with 200 []]) [result_with 301 []]) = 3"
    and "commits (File json_output)
       (cancellation_path creatable (json_app [result_with 200 []]) [result_with 301 []]) =
       [[result_with 200 []], [result_with 200 []] @ [result_with 301 []],
        [result_with 200 []] @ [result_with 301 []]]"
    unfolding app by blast+
  then show ?thesis using new by (simp add: json_output_def)
qed

text \<open>
  The claim as stated fails: with an empty late list, and one result in the buffer, the
  writer's \<open>Flush\<close> is called three times and the file is committed three times.
\<close>

theorem flush_not_exactly_once:
  "flush_calls ''out.json'' (cancellation_path creatable (json_app [result_with 200 []]) []) = 3 \<and>
   flush_calls ''out.json'' (cancellation_path creatable (json_app [result_with 200 []]) []) \<noteq> 1 \<and>
   length (commits ''out.json'' (cancellation_path creatable (json_app [result_with 200 []]) [])) = 3"
  by (simp add: cancellation_path_def on_signal_def Run_after_scan_def write_all_def
        flushBufferedOutput_def json_app_def creatable_def flush_calls_def commits_def)

end
